theory Spec2Isabelle
  imports Complex_Main "HOL-Library.Log_Nat" "HOL-Library.Sublist" "HOL-Library.Multiset"
    "HOL-Library.Char_ord" "HOL-Library.List_Lexorder"
begin

section \<open>Data model\<close>

text \<open>
  The application is a set of Express route handlers over two Mongoose collections.
  Object ids are modelled by their hexadecimal string form, the form that
  \<^verbatim>\<open>String(bug.reporter)\<close> compares. A field of a parsed form body or query string is
  absent (\<open>None\<close>) or a string; a string is a list of characters with codes below 256.
  Failures of the database connection are not modelled; the store's bookkeeping field
  \<^verbatim>\<open>updatedAt\<close> is left out of the bug record.
\<close>

type_synonym oid = string

text \<open>
  Modelled from the spec: the User schema. The file \<^verbatim>\<open>models/User.js\<close> is not among the
  sources; the fields are those the handlers read and write.
\<close>

record user =
  user_id :: oid
  name :: string
  email :: string
  passwordHash :: string
  role :: string

text \<open>The Bug schema: \<^verbatim>\<open>description\<close> is the only optional path.\<close>

record bug =
  bug_id :: oid
  title :: string
  description :: "string option"
  severity :: string
  status :: string
  reporter :: oid
  createdAt :: int

record store =
  users :: "user list"
  bugs :: "bug list"

text \<open>The fields of \<^verbatim>\<open>req.session\<close> that the handlers use; each is unset before login.\<close>

record session =
  userId :: "oid option"
  userName :: "string option"
  userRole :: "string option"

type_synonym fields = "string \<rightharpoonup> string"

section \<open>JavaScript values\<close>

text \<open>JavaScript truthiness of a request field: \<^verbatim>\<open>undefined\<close> and the empty string are falsy.\<close>

definition truthy :: "string option \<Rightarrow> bool" where
  "truthy v = (case v of None \<Rightarrow> False | Some x \<Rightarrow> x \<noteq> [])"

subsection \<open>Numbers\<close>

text \<open>
  A JavaScript number is a binary64 value: a finite one is given by its rational value,
  beside the two infinities and NaN. The sign of zero is not kept; no computation below
  divides, so it cannot be observed. Every arithmetic result is the exact result rounded
  to the nearest binary64 value, ties to the even significand: \<open>exponent_of\<close> is the binary
  exponent of a positive rational, the spacing of the values around it is
  \<open>2 powi (e - 52)\<close> with the exponent held at \<open>- 1022\<close> from below (the subnormal range),
  and a result of \<open>2 powi 1024\<close> or more overflows to an infinity.
\<close>

datatype jsnum = Fin rat | PosInf | NegInf | NaN

definition round_half_even :: "rat \<Rightarrow> int" where
  "round_half_even x =
     (let f = \<lfloor>x\<rfloor>; d = x - of_int f
      in if d < 1 / 2 then f else if 1 / 2 < d then f + 1 else if even f then f else f + 1)"

definition exponent_of :: "rat \<Rightarrow> int" where
  "exponent_of a = (if 1 \<le> a then bitlen \<lfloor>a\<rfloor> - 1 else - bitlen (\<lceil>1 / a\<rceil> - 1))"

definition round_double :: "rat \<Rightarrow> jsnum" where
  "round_double x =
     (if x = 0 then Fin 0
      else
        let a = \<bar>x\<bar>;
            e = max (exponent_of a) (- 1022);
            q = 2 powi (e - 52);
            m = of_int (round_half_even (a / q)) * q
        in if 2 powi 1024 \<le> m then (if x < 0 then NegInf else PosInf)
           else Fin (if x < 0 then - m else m))"

text \<open>
  The smallest positive binary64 value, and the rationals \<open>n * 2 powi k\<close> with \<open>k\<close> from
  \<open>- 1074\<close> up, among which every finite binary64 value lies.
\<close>

definition min_double :: rat where
  "min_double = 2 powi (- 1074)"

definition dyadic :: "rat \<Rightarrow> bool" where
  "dyadic m = (\<exists>n k. - 1074 \<le> k \<and> m = of_int n * 2 powi k)"

text \<open>Subtraction and multiplication, with the special values as IEEE 754 has them.\<close>

fun js_sub :: "jsnum \<Rightarrow> jsnum \<Rightarrow> jsnum" where
  "js_sub (Fin a) (Fin b) = round_double (a - b)"
| "js_sub NaN _ = NaN"
| "js_sub _ NaN = NaN"
| "js_sub PosInf PosInf = NaN"
| "js_sub NegInf NegInf = NaN"
| "js_sub PosInf _ = PosInf"
| "js_sub NegInf _ = NegInf"
| "js_sub (Fin a) PosInf = NegInf"
| "js_sub (Fin a) NegInf = PosInf"

definition js_scale :: "bool \<Rightarrow> rat \<Rightarrow> jsnum" where
  "js_scale positive b =
     (if b = 0 then NaN else if (0 < b) = positive then PosInf else NegInf)"

fun js_mul :: "jsnum \<Rightarrow> jsnum \<Rightarrow> jsnum" where
  "js_mul (Fin a) (Fin b) = round_double (a * b)"
| "js_mul NaN _ = NaN"
| "js_mul _ NaN = NaN"
| "js_mul PosInf (Fin b) = js_scale True b"
| "js_mul NegInf (Fin b) = js_scale False b"
| "js_mul (Fin a) PosInf = js_scale True a"
| "js_mul (Fin a) NegInf = js_scale False a"
| "js_mul PosInf PosInf = PosInf"
| "js_mul NegInf NegInf = PosInf"
| "js_mul PosInf NegInf = NegInf"
| "js_mul NegInf PosInf = NegInf"

fun js_negative :: "jsnum \<Rightarrow> bool" where
  "js_negative (Fin m) = (m < 0)"
| "js_negative NegInf = True"
| "js_negative _ = False"

fun js_below_one :: "jsnum \<Rightarrow> bool" where
  "js_below_one (Fin m) = (m < 1)"
| "js_below_one NegInf = True"
| "js_below_one _ = False"

subsection \<open>Conversion of a string to a number\<close>

text \<open>
  The conversion that \<^verbatim>\<open>page - 1\<close> and \<^verbatim>\<open>Number(page)\<close> apply to a string, after the grammar
  of numeric string literals: white space is trimmed from both ends; the empty string is
  0; a literal with the prefix \<^verbatim>\<open>0x\<close>, \<^verbatim>\<open>0o\<close> or \<^verbatim>\<open>0b\<close> (no sign) is read in its base; a
  decimal literal is an optional sign, then \<^verbatim>\<open>Infinity\<close> or digits with an optional
  fraction and an optional exponent; every other string is NaN. The value of a literal is
  rounded to the nearest binary64 value.
\<close>

definition is_ws :: "char \<Rightarrow> bool" where
  "is_ws c = (c \<in> set [CHR 0x09, CHR 0x0A, CHR 0x0B, CHR 0x0C, CHR 0x0D, CHR 0x20, CHR 0xA0])"

definition trim :: "string \<Rightarrow> string" where
  "trim s = rev (dropWhile is_ws (rev (dropWhile is_ws s)))"

definition digit_of :: "char \<Rightarrow> int option" where
  "digit_of c =
     map_of (zip ''0123456789abcdefABCDEF''
        [0, 1, 2, 3, 4, 5, 6, 7, 8, 9, 10, 11, 12, 13, 14, 15, 10, 11, 12, 13, 14, 15]) c"

definition is_digit_in :: "int \<Rightarrow> char \<Rightarrow> bool" where
  "is_digit_in b c = (case digit_of c of None \<Rightarrow> False | Some d \<Rightarrow> d < b)"

definition digits_val :: "int \<Rightarrow> string \<Rightarrow> int" where
  "digits_val b ds = foldl (\<lambda>a c. a * b + (case digit_of c of None \<Rightarrow> 0 | Some d \<Rightarrow> d)) 0 ds"

definition digits_in :: "int \<Rightarrow> string \<Rightarrow> int option" where
  "digits_in b ds =
     (if ds \<noteq> [] \<and> list_all (is_digit_in b) ds then Some (digits_val b ds) else None)"

definition nondecimal :: "string \<Rightarrow> int option" where
  "nondecimal t =
     (case t of
        c # x # ds \<Rightarrow>
          if c \<noteq> CHR ''0'' then None
          else if x = CHR ''x'' \<or> x = CHR ''X'' then digits_in 16 ds
          else if x = CHR ''o'' \<or> x = CHR ''O'' then digits_in 8 ds
          else if x = CHR ''b'' \<or> x = CHR ''B'' then digits_in 2 ds
          else None
      | _ \<Rightarrow> None)"

definition signed_digits :: "string \<Rightarrow> int option" where
  "signed_digits s =
     (case s of
        [] \<Rightarrow> None
      | c # r \<Rightarrow>
          if c = CHR ''-'' then map_option uminus (digits_in 10 r)
          else if c = CHR ''+'' then digits_in 10 r
          else digits_in 10 s)"

definition exponent_part :: "string \<Rightarrow> int option" where
  "exponent_part r =
     (case r of
        [] \<Rightarrow> Some 0
      | c # r' \<Rightarrow> if c = CHR ''e'' \<or> c = CHR ''E'' then signed_digits r' else None)"

definition unsigned_decimal :: "string \<Rightarrow> rat option" where
  "unsigned_decimal u =
     (let ip = takeWhile (is_digit_in 10) u; r1 = dropWhile (is_digit_in 10) u
      in case r1 of
           [] \<Rightarrow> if ip = [] then None else Some (of_int (digits_val 10 ip))
         | c # r2 \<Rightarrow>
             if c = CHR ''.'' then
               (let fp = takeWhile (is_digit_in 10) r2; r3 = dropWhile (is_digit_in 10) r2
                in if ip = [] \<and> fp = [] then None
                   else map_option
                          (\<lambda>e. of_int (digits_val 10 (ip @ fp)) * 10 powi (e - int (length fp)))
                          (exponent_part r3))
             else if ip = [] then None
             else map_option (\<lambda>e. of_int (digits_val 10 ip) * 10 powi e) (exponent_part r1))"

definition ToNumber :: "string \<Rightarrow> jsnum" where
  "ToNumber s =
     (let t = trim s
      in case t of
           [] \<Rightarrow> Fin 0
         | c # r \<Rightarrow>
             (case nondecimal t of
                Some n \<Rightarrow> round_double (of_int n)
              | None \<Rightarrow>
                  let neg = (c = CHR ''-'');
                      u = (if c = CHR ''-'' \<or> c = CHR ''+'' then r else t)
                  in if u = ''Infinity'' then (if neg then NegInf else PosInf)
                     else (case unsigned_decimal u of
                             None \<Rightarrow> NaN
                           | Some v \<Rightarrow> round_double (if neg then - v else v))))"

section \<open>Responses and store operations\<close>

text \<open>
  A response is a redirect carrying one flash message (kind and text), or a rendered view
  with its data: the bug and its populated reporter, the bug and the session's role, or
  the dashboard's page of bugs with populated reporters, the total, the page number and
  the number of pages.
\<close>

datatype response =
    Redirect string string string
  | RenderShow bug "user option"
  | RenderEdit bug "string option"
  | RenderDashboard "(bug \<times> user option) list" nat jsnum nat

text \<open>
  \<^verbatim>\<open>requireLogin\<close>: redirects to the login page when the session has no user id; otherwise
  the request goes on, and the result carries the session's user id.
\<close>

definition requireLogin :: "session \<Rightarrow> response + oid" where
  "requireLogin s =
     (case userId s of
        None \<Rightarrow> Inl (Redirect ''/login'' ''error'' ''You must be logged in'')
      | Some u \<Rightarrow>
          if u = [] then Inl (Redirect ''/login'' ''error'' ''You must be logged in'')
          else Inr u)"

text \<open>
  \<^verbatim>\<open>Bug.findById\<close> first casts the route parameter to an object id and throws a cast error
  when the string is not one; otherwise it gives the document with that id, or null.
  The cast belongs to the object mapper and is a parameter: \<open>cast i\<close> is the id that the
  string \<open>i\<close> denotes, or \<open>None\<close> for a malformed string.
\<close>

datatype store_error = CastError

definition findById :: "(string \<Rightarrow> oid option) \<Rightarrow> bug list \<Rightarrow> string \<Rightarrow> store_error + bug option" where
  "findById cast bs i =
     (case cast i of
        None \<Rightarrow> Inl CastError
      | Some j \<Rightarrow> Inr (find (\<lambda>b. bug_id b = j) bs))"

text \<open>
  \<^verbatim>\<open>populate('reporter', ...)\<close>: the referenced user document, or null when no user has
  that id.
\<close>

definition populate :: "user list \<Rightarrow> bug \<Rightarrow> user option" where
  "populate us b = find (\<lambda>u. user_id u = reporter b) us"

text \<open>Validation by the Bug schema: a required title and the two enumerations.\<close>

definition bug_valid :: "bug \<Rightarrow> bool" where
  "bug_valid b =
     (title b \<noteq> [] \<and>
      severity b \<in> set [''Low'', ''Medium'', ''High''] \<and>
      status b \<in> set [''Open'', ''In Progress'', ''Closed''])"

text \<open>\<^verbatim>\<open>bug.save()\<close> on a loaded document: the stored document with its id is replaced.\<close>

fun save_bug :: "bug \<Rightarrow> bug list \<Rightarrow> bug list" where
  "save_bug b [] = []"
| "save_bug b (x # xs) = (if bug_id x = bug_id b then b # xs else x # save_bug b xs)"

text \<open>\<^verbatim>\<open>if (v) bug.f = v\<close> for a required and for an optional path.\<close>

definition assign_if :: "string option \<Rightarrow> string \<Rightarrow> string" where
  "assign_if v old = (case v of None \<Rightarrow> old | Some x \<Rightarrow> if x \<noteq> [] then x else old)"

definition assign_if_opt :: "string option \<Rightarrow> string option \<Rightarrow> string option" where
  "assign_if_opt v old = (case v of None \<Rightarrow> old | Some x \<Rightarrow> if x \<noteq> [] then Some x else old)"

section \<open>Bug routes\<close>

text \<open>
  \<^verbatim>\<open>POST /bugs\<close>. The new document takes title, description and severity from the body and
  the reporter from the session; the schema supplies the defaults. The fresh id and the
  creation time come from the store. A document that fails validation is not saved.
\<close>

definition new_Bug :: "oid \<Rightarrow> int \<Rightarrow> string option \<Rightarrow> string option \<Rightarrow> string option \<Rightarrow> oid \<Rightarrow> bug option" where
  "new_Bug i now v_title v_description v_severity rep =
     (case v_title of
        None \<Rightarrow> None
      | Some t \<Rightarrow>
          let b = \<lparr>bug_id = i, title = t, description = v_description,
                   severity = (case v_severity of None \<Rightarrow> ''Low'' | Some x \<Rightarrow> x),
                   status = ''Open'', reporter = rep, createdAt = now\<rparr>
          in if bug_valid b then Some b else None)"

definition post_bugs :: "store \<Rightarrow> session \<Rightarrow> fields \<Rightarrow> oid \<Rightarrow> int \<Rightarrow> store \<times> response" where
  "post_bugs st s body i now =
     (case requireLogin s of
        Inl r \<Rightarrow> (st, r)
      | Inr u \<Rightarrow>
          (case new_Bug i now (body ''title'') (body ''description'') (body ''severity'') u of
             None \<Rightarrow> (st, Redirect ''/bugs/new'' ''error'' ''Failed to report bug'')
           | Some b \<Rightarrow>
               (st\<lparr>bugs := bugs st @ [b]\<rparr>, Redirect ''/dashboard'' ''success'' ''Bug reported'')))"

text \<open>
  \<^verbatim>\<open>GET /bugs/:id\<close>. A cast error of the lookup lands in the handler's catch. The reporter
  is populated, and the check reads \<^verbatim>\<open>bug.reporter._id\<close>: for a non-admin that read throws
  when the reference is dangling, and the catch redirects likewise. For an admin the right
  operand of \<^verbatim>\<open>&&\<close> is not evaluated.
\<close>

definition get_bug :: "(string \<Rightarrow> oid option) \<Rightarrow> store \<Rightarrow> session \<Rightarrow> string \<Rightarrow> response" where
  "get_bug cast st s i =
     (case requireLogin s of
        Inl r \<Rightarrow> r
      | Inr u \<Rightarrow>
          (case findById cast (bugs st) i of
             Inl e \<Rightarrow> Redirect ''/dashboard'' ''error'' ''Error loading bug''
           | Inr None \<Rightarrow> Redirect ''/dashboard'' ''error'' ''Bug not found''
           | Inr (Some b) \<Rightarrow>
               if userRole s \<noteq> Some ''admin'' then
                 (case populate (users st) b of
                    None \<Rightarrow> Redirect ''/dashboard'' ''error'' ''Error loading bug''
                  | Some r \<Rightarrow>
                      if user_id r \<noteq> u
                      then Redirect ''/dashboard'' ''error'' ''Not authorized to view this bug''
                      else RenderShow b (Some r))
               else RenderShow b (populate (users st) b)))"

text \<open>\<^verbatim>\<open>GET /bugs/:id/edit\<close>.\<close>

definition get_bug_edit :: "(string \<Rightarrow> oid option) \<Rightarrow> store \<Rightarrow> session \<Rightarrow> string \<Rightarrow> response" where
  "get_bug_edit cast st s i =
     (case requireLogin s of
        Inl r \<Rightarrow> r
      | Inr u \<Rightarrow>
          (case findById cast (bugs st) i of
             Inl e \<Rightarrow> Redirect ''/dashboard'' ''error'' ''Error loading edit form''
           | Inr None \<Rightarrow> Redirect ''/dashboard'' ''error'' ''Bug not found''
           | Inr (Some b) \<Rightarrow>
               if userRole s \<noteq> Some ''admin'' \<and> reporter b \<noteq> u
               then Redirect ''/dashboard'' ''error'' ''Not authorized to edit this bug''
               else RenderEdit b (userRole s)))"

text \<open>
  \<^verbatim>\<open>PUT /bugs/:id\<close>. A cast error of the lookup and a save that fails validation both land
  in the catch and leave the store as it was.
\<close>

definition put_bug :: "(string \<Rightarrow> oid option) \<Rightarrow> store \<Rightarrow> session \<Rightarrow> string \<Rightarrow> fields \<Rightarrow> store \<times> response" where
  "put_bug cast st s i body =
     (case requireLogin s of
        Inl r \<Rightarrow> (st, r)
      | Inr u \<Rightarrow>
          (case findById cast (bugs st) i of
             Inl e \<Rightarrow> (st, Redirect ''/dashboard'' ''error'' ''Update failed'')
           | Inr None \<Rightarrow> (st, Redirect ''/dashboard'' ''error'' ''Bug not found'')
           | Inr (Some b) \<Rightarrow>
               if userRole s \<noteq> Some ''admin'' \<and> reporter b \<noteq> u
               then (st, Redirect ''/dashboard'' ''error'' ''Not authorized to update this bug'')
               else
                 let b' = b\<lparr>title := assign_if (body ''title'') (title b),
                            description := assign_if_opt (body ''description'') (description b),
                            severity := assign_if (body ''severity'') (severity b),
                            status := assign_if (body ''status'') (status b)\<rparr>
                 in if bug_valid b'
                    then (st\<lparr>bugs := save_bug b' (bugs st)\<rparr>,
                          Redirect (''/bugs/'' @ i) ''success'' ''Bug updated'')
                    else (st, Redirect ''/dashboard'' ''error'' ''Update failed'')))"

section \<open>Registration and login\<close>

text \<open>
  \<^verbatim>\<open>User.findOne({ email })\<close>: the user record with exactly that email. An absent email
  matches no record, since every user record has one.
\<close>

definition User_findOne :: "user list \<Rightarrow> string option \<Rightarrow> user option" where
  "User_findOne us v_email =
     (case v_email of None \<Rightarrow> None | Some e \<Rightarrow> find (\<lambda>u. email u = e) us)"

text \<open>
  \<^verbatim>\<open>POST /register\<close>. \<open>hash\<close> stands for \<^verbatim>\<open>bcrypt.hash(password, 10)\<close> and \<open>i\<close> for the id the
  store gives the new record.
\<close>

definition post_register :: "(string \<Rightarrow> string) \<Rightarrow> oid \<Rightarrow> store \<Rightarrow> fields \<Rightarrow> store \<times> response" where
  "post_register hash i st body =
     (case (body ''name'', body ''email'', body ''password'') of
        (Some n, Some e, Some p) \<Rightarrow>
          if n = [] \<or> e = [] \<or> p = []
          then (st, Redirect ''/register'' ''error'' ''Please fill all fields'')
          else
            (case User_findOne (users st) (Some e) of
               Some existing \<Rightarrow> (st, Redirect ''/register'' ''error'' ''Email already in use'')
             | None \<Rightarrow>
                 let u = \<lparr>user_id = i, name = n, email = e, passwordHash = hash p,
                          role = (if body ''role'' = Some ''admin'' then ''admin'' else ''reporter'')\<rparr>
                 in (st\<lparr>users := users st @ [u]\<rparr>,
                     Redirect ''/login'' ''success'' ''Registered. Please login.''))
      | _ \<Rightarrow> (st, Redirect ''/register'' ''error'' ''Please fill all fields''))"

text \<open>
  \<^verbatim>\<open>POST /login\<close>. \<open>compare\<close> stands for \<^verbatim>\<open>bcrypt.compare\<close> on a password and a hash; called
  without a password it rejects, and the handler's catch answers \<^verbatim>\<open>Login failed\<close>. The three
  session fields are written on the last path only.
\<close>

definition post_login :: "(string \<Rightarrow> string \<Rightarrow> bool) \<Rightarrow> store \<Rightarrow> session \<Rightarrow> fields \<Rightarrow> session \<times> response" where
  "post_login compare st s body =
     (case User_findOne (users st) (body ''email'') of
        None \<Rightarrow> (s, Redirect ''/register'' ''error'' ''Please Register First!'')
      | Some u \<Rightarrow>
          (case body ''password'' of
             None \<Rightarrow> (s, Redirect ''/login'' ''error'' ''Login failed'')
           | Some p \<Rightarrow>
               if \<not> compare p (passwordHash u)
               then (s, Redirect ''/login'' ''error'' ''Invalid credentials'')
               else (s\<lparr>userId := Some (user_id u), userName := Some (name u),
                        userRole := Some (role u)\<rparr>,
                     Redirect ''/dashboard'' ''success'' ''Logged in'')))"

section \<open>Dashboard query\<close>

text \<open>
  The object \<^verbatim>\<open>filter\<close>: each of its four possible keys is absent or holds a condition,
  equality with a string for the first three, \<^verbatim>\<open>{ $regex: q, $options: 'i' }\<close> (pattern and
  options) for the title. The handler runs behind \<^verbatim>\<open>requireLogin\<close>, so the session's user id
  is set when the filter is built.
\<close>

record filter =
  f_reporter :: "oid option"
  f_status :: "string option"
  f_severity :: "string option"
  f_title :: "(string \<times> string) option"

definition dashboard_filter :: "session \<Rightarrow> fields \<Rightarrow> filter" where
  "dashboard_filter s query =
     (let f0 = \<lparr>f_reporter = None, f_status = None, f_severity = None, f_title = None\<rparr>;
          f1 = (if userRole s \<noteq> Some ''admin'' then f0\<lparr>f_reporter := userId s\<rparr> else f0);
          f2 = (if truthy (query ''status'') then f1\<lparr>f_status := query ''status''\<rparr> else f1);
          f3 = (if truthy (query ''severity'') then f2\<lparr>f_severity := query ''severity''\<rparr> else f2)
      in (case query ''q'' of
            None \<Rightarrow> f3
          | Some q \<Rightarrow> if q \<noteq> [] then f3\<lparr>f_title := Some (q, ''i'')\<rparr> else f3))"

text \<open>
  A document matches a filter when it meets the condition of every key present. \<open>rx\<close> is
  the store's regular-expression search: pattern, options, subject.
\<close>

definition doc_matches :: "(string \<Rightarrow> string \<Rightarrow> string \<Rightarrow> bool) \<Rightarrow> filter \<Rightarrow> bug \<Rightarrow> bool" where
  "doc_matches rx f b =
     ((case f_reporter f of None \<Rightarrow> True | Some u \<Rightarrow> reporter b = u) \<and>
      (case f_status f of None \<Rightarrow> True | Some x \<Rightarrow> status b = x) \<and>
      (case f_severity f of None \<Rightarrow> True | Some x \<Rightarrow> severity b = x) \<and>
      (case f_title f of None \<Rightarrow> True | Some (p, opts) \<Rightarrow> rx p opts (title b)))"

subsection \<open>Pagination\<close>

text \<open>
  \<^verbatim>\<open>const { page = 1 } = req.query\<close>: the page is the submitted string, or the number 1 when
  the parameter is absent; \<^verbatim>\<open>(page-1)*limit\<close> and \<^verbatim>\<open>Number(page)\<close> convert a string to a
  number. Nothing else is done to the page before the skip is computed.
\<close>

definition limit :: nat where
  "limit = 10"

definition page_number :: "fields \<Rightarrow> jsnum" where
  "page_number query = (case query ''page'' of None \<Rightarrow> Fin 1 | Some p \<Rightarrow> ToNumber p)"

definition dashboard_skip :: "fields \<Rightarrow> jsnum" where
  "dashboard_skip query = js_mul (js_sub (page_number query) (Fin 1)) (Fin (of_nat limit))"

text \<open>
  What the store does with the skip it is handed. A whole number from 0 up to
  \<open>2 ^ 31 - 1\<close> is the count of documents to pass over. What the store makes of any other
  number is not fixed by this repository and is the parameter \<open>other\<close>: a count, or \<open>None\<close>
  when the store rejects the query, which lands in the handler's catch.
\<close>

definition store_skip :: "(jsnum \<Rightarrow> nat option) \<Rightarrow> jsnum \<Rightarrow> nat option" where
  "store_skip other v =
     (case v of
        Fin x \<Rightarrow> if 0 \<le> x \<and> x < 2 ^ 31 \<and> x = of_int \<lfloor>x\<rfloor> then Some (nat \<lfloor>x\<rfloor>) else other v
      | _ \<Rightarrow> other v)"

subsection \<open>Sorting\<close>

text \<open>
  The handler asks for \<^verbatim>\<open>.sort({ createdAt: -1 })\<close>: a sort specification is a list of field
  names, each with a direction, negative for descending. The store compares two documents
  key by key; a later key decides only between documents equal in all earlier ones.
  Values are compared within their kind, a missing value below a number below a string,
  strings by character codes.
\<close>

definition dashboard_sort :: "(string \<times> int) list" where
  "dashboard_sort = [(''createdAt'', - 1)]"

datatype fval = VNull | VNum int | VStr string

fun fval_less :: "fval \<Rightarrow> fval \<Rightarrow> bool" where
  "fval_less VNull VNull = False"
| "fval_less VNull _ = True"
| "fval_less (VNum a) (VNum b) = (a < b)"
| "fval_less (VNum a) (VStr b) = True"
| "fval_less (VStr a) (VStr b) = (a < b)"
| "fval_less _ _ = False"

definition doc_value :: "string \<Rightarrow> bug \<Rightarrow> fval" where
  "doc_value k b =
     (if k = ''_id'' then VStr (bug_id b)
      else if k = ''title'' then VStr (title b)
      else if k = ''description'' then (case description b of None \<Rightarrow> VNull | Some d \<Rightarrow> VStr d)
      else if k = ''severity'' then VStr (severity b)
      else if k = ''status'' then VStr (status b)
      else if k = ''reporter'' then VStr (reporter b)
      else if k = ''createdAt'' then VNum (createdAt b)
      else VNull)"

text \<open>\<open>sort_le spec a b\<close>: the specification allows \<open>a\<close> to stand before \<open>b\<close>.\<close>

fun sort_le :: "(string \<times> int) list \<Rightarrow> bug \<Rightarrow> bug \<Rightarrow> bool" where
  "sort_le [] a b = True"
| "sort_le ((k, d) # ks) a b =
     (if doc_value k a = doc_value k b then sort_le ks a b
      else if d < 0 then fval_less (doc_value k b) (doc_value k a)
      else fval_less (doc_value k a) (doc_value k b))"

text \<open>
  The store promises no order among documents that the specification does not tell apart,
  so the sorted result of a query is a relation: every arrangement of the matching
  documents in which each document may stand before all later ones is a possible result.
\<close>

definition find_sorted ::
  "(string \<Rightarrow> string \<Rightarrow> string \<Rightarrow> bool) \<Rightarrow> filter \<Rightarrow> (string \<times> int) list \<Rightarrow> bug list \<Rightarrow> bug list \<Rightarrow> bool" where
  "find_sorted rx f spec docs zs =
     (mset zs = mset (filter (doc_matches rx f) docs) \<and> sorted_wrt (sort_le spec) zs)"

text \<open>One such arrangement: the stable insertion sort of the collection's own order.\<close>

fun insert_doc :: "(string \<times> int) list \<Rightarrow> bug \<Rightarrow> bug list \<Rightarrow> bug list" where
  "insert_doc spec x [] = [x]"
| "insert_doc spec x (y # ys) =
     (if sort_le spec x y then x # y # ys else y # insert_doc spec x ys)"

definition sort_docs :: "(string \<times> int) list \<Rightarrow> bug list \<Rightarrow> bug list" where
  "sort_docs spec xs = foldr (insert_doc spec) xs []"

subsection \<open>Title search\<close>

text \<open>
  The store reads the value of \<^verbatim>\<open>$regex\<close> as a Perl-compatible regular expression and
  looks for a match anywhere in the subject. The model covers the patterns built from
  literal characters and the dot, each optionally followed by one of the quantifiers
  \<^verbatim>\<open>*\<close>, \<^verbatim>\<open>+\<close>, \<^verbatim>\<open>?\<close>, over ASCII subjects. A pattern that uses anything else (an escape, an
  anchor, a group, a class, a bound, alternation, a quantifier with nothing to repeat or
  with a modifier) is outside the model: \<open>parse_items\<close> gives \<open>None\<close>.
\<close>

datatype atom = Lit char | Dot

datatype quant = One | ZeroOrOne | ZeroOrMore | OneOrMore

definition quant_of :: "char \<Rightarrow> quant option" where
  "quant_of c =
     (if c = CHR ''*'' then Some ZeroOrMore
      else if c = CHR ''+'' then Some OneOrMore
      else if c = CHR ''?'' then Some ZeroOrOne
      else None)"

definition regex_meta :: "char set" where
  "regex_meta = set [CHR 0x5C, CHR ''^'', CHR ''$'', CHR ''.'', CHR ''|'', CHR ''?'', CHR ''*'',
                     CHR ''+'', CHR ''('', CHR '')'', CHR ''['', CHR '']'', CHR ''{'', CHR ''}'']"

definition atom_of :: "char \<Rightarrow> atom option" where
  "atom_of c = (if c = CHR ''.'' then Some Dot else if c \<in> regex_meta then None else Some (Lit c))"

fun parse_items :: "string \<Rightarrow> (atom \<times> quant) list option" where
  "parse_items [] = Some []"
| "parse_items [c] = map_option (\<lambda>a. [(a, One)]) (atom_of c)"
| "parse_items (c # d # rest) =
     (case atom_of c of
        None \<Rightarrow> None
      | Some a \<Rightarrow>
          (case quant_of d of
             None \<Rightarrow> map_option ((#) (a, One)) (parse_items (d # rest))
           | Some k \<Rightarrow>
               (case rest of
                  [] \<Rightarrow> Some [(a, k)]
                | e # _ \<Rightarrow>
                    if quant_of e \<noteq> None then None
                    else map_option ((#) (a, k)) (parse_items rest))))"

definition lower :: "char \<Rightarrow> char" where
  "lower c =
     (case map_of (zip ''ABCDEFGHIJKLMNOPQRSTUVWXYZ'' ''abcdefghijklmnopqrstuvwxyz'') c of
        None \<Rightarrow> c
      | Some d \<Rightarrow> d)"

text \<open>With the option \<^verbatim>\<open>i\<close> letters match in either case; the dot matches all but a line feed.\<close>

fun atom_ok :: "bool \<Rightarrow> atom \<Rightarrow> char \<Rightarrow> bool" where
  "atom_ok ci (Lit x) c = (if ci then lower x = lower c else x = c)"
| "atom_ok ci Dot c = (c \<noteq> CHR 0x0A)"

text \<open>\<open>match_here ci items s\<close>: some prefix of \<open>s\<close> matches the whole of \<open>items\<close>.\<close>

fun match_here :: "bool \<Rightarrow> (atom \<times> quant) list \<Rightarrow> string \<Rightarrow> bool" where
  "match_here ci [] s = True"
| "match_here ci ((a, One) # r) s =
     (case s of [] \<Rightarrow> False | c # cs \<Rightarrow> atom_ok ci a c \<and> match_here ci r cs)"
| "match_here ci ((a, ZeroOrOne) # r) s =
     (match_here ci r s \<or>
      (case s of [] \<Rightarrow> False | c # cs \<Rightarrow> atom_ok ci a c \<and> match_here ci r cs))"
| "match_here ci ((a, ZeroOrMore) # r) s =
     (match_here ci r s \<or>
      (case s of [] \<Rightarrow> False | c # cs \<Rightarrow> atom_ok ci a c \<and> match_here ci ((a, ZeroOrMore) # r) cs))"
| "match_here ci ((a, OneOrMore) # r) s =
     (case s of [] \<Rightarrow> False | c # cs \<Rightarrow> atom_ok ci a c \<and> match_here ci ((a, ZeroOrMore) # r) cs)"

fun regex_search :: "bool \<Rightarrow> (atom \<times> quant) list \<Rightarrow> string \<Rightarrow> bool" where
  "regex_search ci items [] = match_here ci items []"
| "regex_search ci items (c # cs) = (match_here ci items (c # cs) \<or> regex_search ci items cs)"

text \<open>The search of the store for the two option strings the model covers.\<close>

definition pcre_search :: "string \<Rightarrow> string \<Rightarrow> string \<Rightarrow> bool option" where
  "pcre_search p opts subject =
     (if opts = ''i'' \<or> opts = [] then
        map_option (\<lambda>items. regex_search (opts = ''i'') items subject) (parse_items p)
      else None)"

subsection \<open>Query execution\<close>

text \<open>
  \<^verbatim>\<open>Bug.find(filter).sort({ createdAt: -1 }).skip((page-1)*limit).limit(limit)\<close>: the page is
  cut out of a sorted result of the filter, after the count the store reads from the skip.
\<close>

inductive dashboard_bugs ::
  "(string \<Rightarrow> string \<Rightarrow> string \<Rightarrow> bool) \<Rightarrow> (jsnum \<Rightarrow> nat option) \<Rightarrow> store \<Rightarrow> session \<Rightarrow> fields \<Rightarrow>
   bug list \<Rightarrow> bool" where
  page:
  "requireLogin s = Inr u \<Longrightarrow>
   find_sorted rx (dashboard_filter s query) dashboard_sort (bugs st) zs \<Longrightarrow>
   store_skip other (dashboard_skip query) = Some k \<Longrightarrow>
   dashboard_bugs rx other st s query (take limit (drop k zs))"

text \<open>
  \<^verbatim>\<open>GET /dashboard\<close>. Behind \<^verbatim>\<open>requireLogin\<close> the handler renders a page of bugs with their
  populated reporters, the count of all matching documents, \<^verbatim>\<open>Number(page)\<close> and
  \<^verbatim>\<open>Math.ceil(total / limit)\<close>; a query that the store rejects lands in the catch.
\<close>

inductive get_dashboard ::
  "(string \<Rightarrow> string \<Rightarrow> string \<Rightarrow> bool) \<Rightarrow> (jsnum \<Rightarrow> nat option) \<Rightarrow> store \<Rightarrow> session \<Rightarrow> fields \<Rightarrow>
   response \<Rightarrow> bool" where
  login:
  "requireLogin s = Inl r \<Longrightarrow> get_dashboard rx other st s query r"
| rendered:
  "dashboard_bugs rx other st s query ys \<Longrightarrow>
   n = length (filter (doc_matches rx (dashboard_filter s query)) (bugs st)) \<Longrightarrow>
   get_dashboard rx other st s query
     (RenderDashboard (map (\<lambda>b. (b, populate (users st) b)) ys) n (page_number query)
        ((n + limit - 1) div limit))"
| failed:
  "requireLogin s = Inr u \<Longrightarrow>
   store_skip other (dashboard_skip query) = None \<Longrightarrow>
   get_dashboard rx other st s query (Redirect ''/'' ''error'' ''Could not load dashboard'')"

section \<open>Access policy and store invariant\<close>

text \<open>
  The access predicate in the words of the specification: the session's role is admin, or
  the bug's reporter is the session's user.
\<close>

definition canViewOrEdit :: "session \<Rightarrow> bug \<Rightarrow> bool" where
  "canViewOrEdit s b = (userRole s = Some ''admin'' \<or> Some (reporter b) = userId s)"

text \<open>Referential integrity: the reporter of every stored bug is a stored user.\<close>

definition refs_ok :: "store \<Rightarrow> bool" where
  "refs_ok st = list_all (\<lambda>b. populate (users st) b \<noteq> None) (bugs st)"

text \<open>The session belongs to a stored user, as after a login.\<close>

definition session_ok :: "store \<Rightarrow> session \<Rightarrow> bool" where
  "session_ok st s = list_ex (\<lambda>u. userId s = Some (user_id u)) (users st)"

section \<open>Example data\<close>

text \<open>
  A small store used to run the handlers: two reporters and an admin, two bugs of the
  first reporter filed at the same instant and an older one of the second. \<open>toy_hash\<close> and
  \<open>toy_compare\<close> stand in for the password hashing library, \<open>store_rx\<close> for the store's
  regular-expression search, \<open>hex24\<close> for the cast of a route parameter (24 hexadecimal
  digits denote an id), and \<open>strict_skip\<close> for a store that rejects every skip it is not
  bound to accept.
\<close>

definition toy_hash :: "string \<Rightarrow> string" where
  "toy_hash p = ''h:'' @ p"

definition toy_compare :: "string \<Rightarrow> string \<Rightarrow> bool" where
  "toy_compare p h = (h = toy_hash p)"

definition store_rx :: "string \<Rightarrow> string \<Rightarrow> string \<Rightarrow> bool" where
  "store_rx p opts t = (pcre_search p opts t = Some True)"

definition hex24 :: "string \<Rightarrow> oid option" where
  "hex24 i = (if length i = 24 \<and> list_all (is_digit_in 16) i then Some (map lower i) else None)"

definition strict_skip :: "jsnum \<Rightarrow> nat option" where
  "strict_skip v = None"

definition id_alice :: oid where
  "id_alice = ''64a1000000000000000000a1''"

definition id_bob :: oid where
  "id_bob = ''64a1000000000000000000b2''"

definition id_carol :: oid where
  "id_carol = ''64a1000000000000000000c3''"

definition id_bug1 :: oid where
  "id_bug1 = ''64b2000000000000000000d1''"

definition id_bug2 :: oid where
  "id_bug2 = ''64b2000000000000000000d2''"

definition id_bug3 :: oid where
  "id_bug3 = ''64b2000000000000000000d3''"

definition id_none :: oid where
  "id_none = ''64b2000000000000000000ff''"

definition alice :: user where
  "alice = \<lparr>user_id = id_alice, name = ''Alice'', email = ''alice@example.com'',
            passwordHash = ''h:secret'', role = ''reporter''\<rparr>"

definition bob :: user where
  "bob = \<lparr>user_id = id_bob, name = ''Bob'', email = ''bob@example.com'',
          passwordHash = ''h:hunter2'', role = ''reporter''\<rparr>"

definition carol :: user where
  "carol = \<lparr>user_id = id_carol, name = ''Carol'', email = ''carol@example.com'',
            passwordHash = ''h:root'', role = ''admin''\<rparr>"

definition bug1 :: bug where
  "bug1 = \<lparr>bug_id = id_bug1, title = ''Crash on save'', description = Some ''It crashes'',
           severity = ''High'', status = ''Open'', reporter = id_alice, createdAt = 100\<rparr>"

definition bug2 :: bug where
  "bug2 = \<lparr>bug_id = id_bug2, title = ''Typo in footer'', description = None,
           severity = ''Low'', status = ''Open'', reporter = id_alice, createdAt = 100\<rparr>"

definition bug3 :: bug where
  "bug3 = \<lparr>bug_id = id_bug3, title = ''Login crash'', description = Some ''Stack trace'',
           severity = ''High'', status = ''Open'', reporter = id_bob, createdAt = 50\<rparr>"

definition store0 :: store where
  "store0 = \<lparr>users = [alice, bob, carol], bugs = [bug1, bug2, bug3]\<rparr>"

definition alice_session :: session where
  "alice_session = \<lparr>userId = Some id_alice, userName = Some ''Alice'', userRole = Some ''reporter''\<rparr>"

definition carol_session :: session where
  "carol_session = \<lparr>userId = Some id_carol, userName = Some ''Carol'', userRole = Some ''admin''\<rparr>"

definition anonymous :: session where
  "anonymous = \<lparr>userId = None, userName = None, userRole = None\<rparr>"

definition high_open_crash :: fields where
  "high_open_crash = [''status'' \<mapsto> ''Open'', ''severity'' \<mapsto> ''High'', ''q'' \<mapsto> ''crash'', ''page'' \<mapsto> ''1'']"

section \<open>Rounding\<close>

text \<open>
  \<open>exponent_of\<close> is the binary exponent: a positive \<open>a\<close> lies from \<open>2 powi (exponent_of a)\<close>
  up to, but not at, the next power of two. Rounding keeps the sign, does not take a
  number of magnitude \<open>min_double\<close> or more to zero, and leaves every \<open>n * 2 powi k\<close> with
  \<open>n\<close> below \<open>2 ^ 53\<close> in magnitude as it is.
\<close>

lemma round_half_even_of_int: "round_half_even (of_int z) = z"
  by (simp add: round_half_even_def)

lemma round_half_even_ge:
  assumes "of_int z \<le> x"
  shows "z \<le> round_half_even x"
proof -
  from assms have "z \<le> \<lfloor>x\<rfloor>" by (simp add: le_floor_iff)
  moreover have "\<lfloor>x\<rfloor> \<le> round_half_even x" by (simp add: round_half_even_def Let_def)
  ultimately show ?thesis by simp
qed

lemma min_double_pos: "0 < min_double"
  by (simp add: min_double_def del: power_int_numeral_neg_numeral)

lemma min_double_le: "- 1022 \<le> e \<Longrightarrow> min_double \<le> 2 powi (e - 52)"
  unfolding min_double_def by (rule power_int_increasing) simp_all

lemma exponent_of_lower:
  assumes "0 < a"
  shows "2 powi (exponent_of a) \<le> a"
proof (cases "1 \<le> a")
  case True
  then have m: "0 < \<lfloor>a\<rfloor>" by simp
  from bitlen_bounds[OF m] have "2 ^ nat (bitlen \<lfloor>a\<rfloor> - 1) \<le> \<lfloor>a\<rfloor>" by simp
  then have "(of_int (2 ^ nat (bitlen \<lfloor>a\<rfloor> - 1)) :: rat) \<le> of_int \<lfloor>a\<rfloor>"
    by (simp only: of_int_le_iff)
  then have "(2 :: rat) ^ nat (bitlen \<lfloor>a\<rfloor> - 1) \<le> a"
    by (simp add: le_floor_iff)
  moreover have "0 \<le> bitlen \<lfloor>a\<rfloor> - 1"
    using m by (simp add: bitlen_alt_def)
  ultimately show ?thesis
    using True by (simp add: exponent_of_def power_int_nonneg_exp)
next
  case False
  let ?c = "\<lceil>1 / a\<rceil>"
  from False assms have "1 < 1 / a" by (simp add: field_simps)
  then have c: "0 < ?c - 1" by (simp add: less_ceiling_iff)
  from bitlen_bounds[OF c] have "?c - 1 < 2 ^ nat (bitlen (?c - 1))" by simp
  then have "?c \<le> 2 ^ nat (bitlen (?c - 1))" by simp
  then have "(of_int ?c :: rat) \<le> of_int (2 ^ nat (bitlen (?c - 1)))"
    by (simp only: of_int_le_iff)
  with le_of_int_ceiling[of "1 / a"]
  have "1 / a \<le> of_int (2 ^ nat (bitlen (?c - 1)))" by (rule order_trans)
  then have "1 / a \<le> 2 ^ nat (bitlen (?c - 1))" by simp
  then have "1 / 2 ^ nat (bitlen (?c - 1)) \<le> a"
    using assms by (simp add: field_simps)
  moreover have "0 \<le> bitlen (?c - 1)" by (rule bitlen_nonneg)
  ultimately show ?thesis
    using False by (simp add: exponent_of_def power_int_minus_divide power_int_nonneg_exp)
qed

lemma exponent_of_upper:
  assumes "0 < a"
  shows "a < 2 powi (exponent_of a + 1)"
proof (cases "1 \<le> a")
  case True
  then have m: "0 < \<lfloor>a\<rfloor>" by simp
  from bitlen_bounds[OF m] have "\<lfloor>a\<rfloor> + 1 \<le> 2 ^ nat (bitlen \<lfloor>a\<rfloor>)" by simp
  then have "(of_int (\<lfloor>a\<rfloor> + 1) :: rat) \<le> of_int (2 ^ nat (bitlen \<lfloor>a\<rfloor>))"
    by (simp only: of_int_le_iff)
  moreover have "a < of_int (\<lfloor>a\<rfloor> + 1)" by linarith
  ultimately have "a < of_int (2 ^ nat (bitlen \<lfloor>a\<rfloor>))" by (rule less_le_trans[rotated])
  then have "a < 2 ^ nat (bitlen \<lfloor>a\<rfloor>)" by simp
  moreover have "0 \<le> bitlen \<lfloor>a\<rfloor>" by (rule bitlen_nonneg)
  ultimately show ?thesis
    using True by (simp add: exponent_of_def power_int_nonneg_exp)
next
  case False
  let ?c = "\<lceil>1 / a\<rceil>"
  from False assms have "1 < 1 / a" by (simp add: field_simps)
  then have c: "0 < ?c - 1" by (simp add: less_ceiling_iff)
  define n where "n = nat (bitlen (?c - 1) - 1)"
  have b1: "1 \<le> bitlen (?c - 1)" using c by (simp add: bitlen_alt_def)
  from bitlen_bounds[OF c] have "2 ^ n \<le> ?c - 1" by (simp add: n_def)
  then have "(of_int (2 ^ n) :: rat) \<le> of_int (?c - 1)" by (simp only: of_int_le_iff)
  moreover have "of_int (?c - 1) < 1 / a" by linarith
  ultimately have "(of_int (2 ^ n) :: rat) < 1 / a" by (rule le_less_trans)
  then have "(2 :: rat) ^ n < 1 / a" by simp
  then have "a < 1 / 2 ^ n" using assms by (simp add: field_simps)
  moreover have "exponent_of a + 1 = - int n"
    using False b1 by (simp add: exponent_of_def n_def)
  ultimately show ?thesis
    by (simp add: power_int_minus_divide)
qed

lemma round_double_cases:
  "round_double x = PosInf \<or> round_double x = NegInf \<or> (\<exists>m. round_double x = Fin m)"
  by (auto simp: round_double_def Let_def)

lemma round_double_not_NaN [simp]: "round_double x \<noteq> NaN"
  by (auto simp: round_double_def Let_def)

lemma round_double_nonneg:
  assumes "0 \<le> x"
  shows "round_double x = PosInf \<or> (\<exists>m. round_double x = Fin m \<and> 0 \<le> m)"
proof (cases "x = 0")
  case True
  then show ?thesis by (simp add: round_double_def)
next
  case False
  with assms have pos: "0 < x" by simp
  define q :: rat where "q = 2 powi (max (exponent_of \<bar>x\<bar>) (- 1022) - 52)"
  have q: "0 < q" by (simp add: q_def)
  have "0 \<le> \<bar>x\<bar> / q" using q by simp
  then have "0 \<le> round_half_even (\<bar>x\<bar> / q)"
    using round_half_even_ge[of 0 "\<bar>x\<bar> / q"] by simp
  then have "0 \<le> of_int (round_half_even (\<bar>x\<bar> / q)) * q"
    using q by simp
  then show ?thesis
    using pos by (auto simp: round_double_def Let_def q_def)
qed

lemma round_double_negative:
  assumes "x \<le> - min_double"
  shows "round_double x = NegInf \<or> (\<exists>m. round_double x = Fin m \<and> m \<le> - min_double)"
proof -
  from assms min_double_pos have neg: "x < 0" by linarith
  then have a: "min_double \<le> \<bar>x\<bar>" using assms by simp
  define e where "e = max (exponent_of \<bar>x\<bar>) (- 1022)"
  define q :: rat where "q = 2 powi (e - 52)"
  have q: "0 < q" by (simp add: q_def)
  have qt: "min_double \<le> q"
    unfolding q_def by (rule min_double_le) (simp add: e_def)
  have qa: "q \<le> \<bar>x\<bar>"
  proof (cases "exponent_of \<bar>x\<bar> \<le> - 1022")
    case True
    then have "e - 52 = - 1074" by (simp add: e_def max_def)
    then have "q = min_double" by (simp only: q_def min_double_def)
    with a show ?thesis by simp
  next
    case False
    then have "e = exponent_of \<bar>x\<bar>" by (simp add: e_def)
    then have "q \<le> 2 powi (exponent_of \<bar>x\<bar>)"
      unfolding q_def by (simp add: power_int_increasing)
    also have "\<dots> \<le> \<bar>x\<bar>" using neg by (intro exponent_of_lower) simp
    finally show ?thesis .
  qed
  then have "1 \<le> \<bar>x\<bar> / q" using q by (simp add: field_simps)
  then have "1 \<le> round_half_even (\<bar>x\<bar> / q)"
    using round_half_even_ge[of 1 "\<bar>x\<bar> / q"] by simp
  then have "(1 :: rat) \<le> of_int (round_half_even (\<bar>x\<bar> / q))" by simp
  then have "1 * q \<le> of_int (round_half_even (\<bar>x\<bar> / q)) * q"
    using q by (intro mult_right_mono) simp_all
  with qt have m: "min_double \<le> of_int (round_half_even (\<bar>x\<bar> / q)) * q" by simp
  have "x \<noteq> 0" using neg by simp
  then show ?thesis
    using neg m unfolding round_double_def Let_def q_def e_def
    by (auto simp del: power_int_numeral_neg_numeral power_int_numeral)
qed

lemma round_double_dyadic: "round_double x = Fin m \<Longrightarrow> dyadic m"
proof (cases "x = 0")
  case True
  assume "round_double x = Fin m"
  with True have "m = of_int 0 * 2 powi 0" by (simp add: round_double_def)
  then show ?thesis unfolding dyadic_def by (intro exI[of _ 0] exI[of _ "0::int"]) simp
next
  case False
  assume r: "round_double x = Fin m"
  define e where "e = max (exponent_of \<bar>x\<bar>) (- 1022)"
  define j where "j = round_half_even (\<bar>x\<bar> / 2 powi (e - 52))"
  have "m = of_int (if x < 0 then - j else j) * 2 powi (e - 52)"
    using r False by (auto simp: round_double_def Let_def e_def j_def split: if_splits)
  moreover have "- 1074 \<le> e - 52" by (simp add: e_def)
  ultimately show ?thesis unfolding dyadic_def by blast
qed

lemma dyadic_below_one:
  assumes "dyadic x" and "x < 1"
  shows "x - 1 \<le> - min_double"
proof -
  from assms(1) obtain n k where k: "- 1074 \<le> k" and x: "x = of_int n * 2 powi k"
    unfolding dyadic_def by blast
  define N :: int where "N = 2 ^ 1074"
  define t :: rat where "t = of_int N"
  have t: "0 < t" by (simp add: t_def N_def)
  have md: "min_double = 1 / t"
    unfolding min_double_def t_def N_def by (simp add: power_int_minus_divide)
  have "k = - 1074 + (k + 1074)" by simp
  then have "(2 :: rat) powi k = 2 powi (- 1074) * 2 powi (k + 1074)"
    by (metis power_int_add zero_neq_numeral)
  also have "\<dots> = (1 / t) * 2 ^ nat (k + 1074)"
    using k by (simp only: power_int_nonneg_exp min_double_def[symmetric] md)
  finally have "x * t = of_int n * 2 ^ nat (k + 1074)"
    using t unfolding x by simp
  then have i: "x * t = of_int (n * 2 ^ nat (k + 1074))" by simp
  have "x * t < 1 * t" using assms(2) t by (intro mult_strict_right_mono)
  then have "(of_int (n * 2 ^ nat (k + 1074)) :: rat) < of_int N"
    using i by (simp add: t_def)
  then have "n * 2 ^ nat (k + 1074) < N" by (simp only: of_int_less_iff)
  then have "n * 2 ^ nat (k + 1074) \<le> N - 1" by simp
  then have "(of_int (n * 2 ^ nat (k + 1074)) :: rat) \<le> of_int (N - 1)"
    by (simp only: of_int_le_iff)
  then have "x * t \<le> t - 1" using i by (simp add: t_def)
  then have "x \<le> (t - 1) / t" using t by (simp add: field_simps)
  then show ?thesis using t by (simp add: md field_simps)
qed

lemma round_double_exact:
  assumes "\<bar>n\<bar> < 2 ^ 53" and "- 1074 \<le> k" and "k \<le> 970"
  shows "round_double (of_int n * 2 powi k) = Fin (of_int n * 2 powi k)"
proof (cases "n = 0")
  case True
  then show ?thesis by (simp add: round_double_def)
next
  case False
  define x :: rat where "x = of_int n * 2 powi k"
  define a :: rat where "a = \<bar>x\<bar>"
  have aeq: "a = of_int \<bar>n\<bar> * 2 powi k"
    by (simp add: a_def x_def abs_mult)
  have apos: "0 < a" using False by (simp add: a_def x_def)
  have "of_int \<bar>n\<bar> < (2 :: rat) ^ 53"
    using assms(1) by (metis of_int_less_numeral_power_cancel_iff)
  then have "a < 2 ^ 53 * 2 powi k"
    unfolding aeq by (intro mult_strict_right_mono) simp_all
  also have "\<dots> = 2 powi (53 + k)"
    by (simp add: power_int_add)
  finally have aub: "a < 2 powi (53 + k)" .
  define e where "e = max (exponent_of a) (- 1022)"
  have "2 powi (exponent_of a) \<le> a" using apos by (rule exponent_of_lower)
  with aub have lt2: "(2 :: rat) powi (exponent_of a) < 2 powi (53 + k)" by simp
  have "exponent_of a < 53 + k"
  proof (rule ccontr)
    assume "\<not> exponent_of a < 53 + k"
    then have "53 + k \<le> exponent_of a" by simp
    then have "(2 :: rat) powi (53 + k) \<le> 2 powi (exponent_of a)"
      by (intro power_int_increasing) simp_all
    with lt2 show False by simp
  qed
  then have ek: "e - 52 \<le> k" using assms(2) by (simp add: e_def)
  define j where "j = nat (k - (e - 52))"
  have "k = (e - 52) + int j" using ek by (simp add: j_def)
  then have "(2 :: rat) powi k = 2 powi (e - 52) * 2 powi (int j)"
    by (metis power_int_add zero_neq_numeral)
  then have split: "(2 :: rat) powi k = 2 powi (e - 52) * 2 ^ j" by simp
  have qpos: "(0 :: rat) < 2 powi (e - 52)" by simp
  have "a / 2 powi (e - 52) = of_int \<bar>n\<bar> * 2 ^ j"
    unfolding aeq split using qpos by simp
  also have "\<dots> = of_int (\<bar>n\<bar> * 2 ^ j)" by simp
  finally have "round_half_even (a / 2 powi (e - 52)) = \<bar>n\<bar> * 2 ^ j"
    by (simp only: round_half_even_of_int)
  then have m: "of_int (round_half_even (a / 2 powi (e - 52))) * 2 powi (e - 52) = a"
    unfolding aeq split by simp
  have "(2 :: rat) powi (53 + k) \<le> 2 powi 1024"
    using assms(3) by (intro power_int_increasing) simp_all
  with aub have lt: "\<not> 2 powi 1024 \<le> a" by simp
  have nz: "x \<noteq> 0" using False by (simp add: x_def)
  have sg: "(if x < 0 then - a else a) = x" by (simp add: a_def)
  show ?thesis
    unfolding x_def[symmetric] round_double_def Let_def a_def[symmetric] e_def[symmetric] m
    using nz lt sg by (simp del: power_int_numeral)
qed

lemma round_double_int:
  "\<bar>n\<bar> < 2 ^ 53 \<Longrightarrow> round_double (of_int n) = Fin (of_int n)"
  using round_double_exact[of n 0] by simp

lemma dyadic_int: "dyadic (of_int n)"
  unfolding dyadic_def by (intro exI[of _ n] exI[of _ "0::int"]) simp

section \<open>Pagination\<close>

lemma round_double_numeral:
  "(numeral w :: int) < 2 ^ 53 \<Longrightarrow> round_double (numeral w) = Fin (numeral w)"
  "(numeral w :: int) < 2 ^ 53 \<Longrightarrow> round_double (- numeral w) = Fin (- numeral w)"
  "round_double 0 = Fin 0"
  "round_double 1 = Fin 1"
  "round_double (- 1) = Fin (- 1)"
  using round_double_int[of "numeral w"] round_double_int[of "- numeral w"]
    round_double_int[of 1] round_double_int[of "- 1"]
  by (simp_all add: round_double_def)

lemma round_double_halves:
  "round_double (1 / 2) = Fin (1 / 2)"
  "round_double (3 / 2) = Fin (3 / 2)"
  using round_double_exact[of 1 "- 1"] round_double_exact[of 3 "- 1"]
  by simp_all

lemmas number_defs = ToNumber_def trim_def is_ws_def nondecimal_def unsigned_decimal_def
  exponent_part_def signed_digits_def digits_in_def digits_val_def is_digit_in_def digit_of_def

lemma ToNumber_examples:
  "ToNumber ''0'' = Fin 0"
  "ToNumber ''1'' = Fin 1"
  "ToNumber ''3'' = Fin 3"
  "ToNumber ''-5'' = Fin (- 5)"
  "ToNumber ''abc'' = NaN"
  "ToNumber ''1e1'' = Fin 10"
  "ToNumber ''1.5'' = Fin (3 / 2)"
  "ToNumber '' 2'' = Fin 2"
  "ToNumber ''0x10'' = Fin 16"
  "ToNumber '''' = Fin 0"
  by (simp_all add: number_defs round_double_numeral round_double_halves)

lemma decimal_digit: "is_digit_in 10 c \<Longrightarrow> c \<in> set ''0123456789''"
  by (auto simp: is_digit_in_def digit_of_def split: if_splits)

lemma decimal_digit_plain:
  assumes "is_digit_in 10 c"
  shows "\<not> is_ws c" and "c \<noteq> CHR ''-''" and "c \<noteq> CHR ''+''" and "c \<noteq> CHR ''x''"
    and "c \<noteq> CHR ''X''" and "c \<noteq> CHR ''o''" and "c \<noteq> CHR ''O''" and "c \<noteq> CHR ''b''"
    and "c \<noteq> CHR ''B''" and "c \<noteq> CHR ''I''"
  using decimal_digit[OF assms] by (auto simp: is_ws_def)

lemma trim_digits:
  assumes "ds \<noteq> []" and "list_all (is_digit_in 10) ds"
  shows "trim ds = ds"
proof -
  from assms obtain c r where ds: "ds = c # r" by (cases ds) auto
  with assms(2) have "\<not> is_ws c" by (simp add: decimal_digit_plain)
  then have d1: "dropWhile is_ws ds = ds" by (simp add: ds)
  from assms have "\<not> is_ws (last ds)"
    by (metis decimal_digit_plain(1) last_in_set list_all_iff)
  then have "\<not> is_ws (hd (rev ds))" using assms(1) by (simp add: hd_rev)
  then have "dropWhile is_ws (rev ds) = rev ds"
    using assms(1) by (cases "rev ds") auto
  with d1 show ?thesis by (simp add: trim_def)
qed

lemma nondecimal_digits:
  assumes "list_all (is_digit_in 10) ds"
  shows "nondecimal ds = None"
proof (cases ds)
  case Nil
  then show ?thesis by (simp add: nondecimal_def)
next
  case (Cons c r)
  show ?thesis
  proof (cases r)
    case Nil
    with Cons show ?thesis by (simp add: nondecimal_def)
  next
    case (Cons x r')
    with assms \<open>ds = c # r\<close> have "is_digit_in 10 x" by simp
    then have "x \<noteq> CHR ''x''" "x \<noteq> CHR ''X''" "x \<noteq> CHR ''o''" "x \<noteq> CHR ''O''"
      "x \<noteq> CHR ''b''" "x \<noteq> CHR ''B''"
      by (simp_all add: decimal_digit_plain)
    with Cons \<open>ds = c # r\<close> show ?thesis by (simp add: nondecimal_def)
  qed
qed

lemma unsigned_decimal_digits:
  assumes "ds \<noteq> []" and "list_all (is_digit_in 10) ds"
  shows "unsigned_decimal ds = Some (of_int (digits_val 10 ds))"
proof -
  from assms(2) have tw: "takeWhile (is_digit_in 10) ds = ds"
    and dw: "dropWhile (is_digit_in 10) ds = []"
    by (simp_all add: list_all_iff)
  show ?thesis unfolding unsigned_decimal_def Let_def tw dw using assms(1) by simp
qed

lemma not_Infinity: "list_all (is_digit_in 10) ds \<Longrightarrow> ds \<noteq> ''Infinity''"
  by (auto simp: is_digit_in_def digit_of_def)

lemma ToNumber_digits:
  assumes "digits_in 10 ds = Some n"
  shows "ToNumber ds = round_double (of_int n)"
    and "ToNumber (CHR ''-'' # ds) = round_double (- of_int n)"
proof -
  from assms have ne: "ds \<noteq> []" and all: "list_all (is_digit_in 10) ds"
    and n: "n = digits_val 10 ds"
    by (auto simp: digits_in_def split: if_splits)
  from ne obtain c r where ds: "ds = c # r" by (cases ds) auto
  with all have c: "c \<noteq> CHR ''-''" "c \<noteq> CHR ''+''" by (simp_all add: decimal_digit_plain)
  show "ToNumber ds = round_double (of_int n)"
    unfolding ToNumber_def trim_digits[OF ne all]
    using c nondecimal_digits[OF all] unsigned_decimal_digits[OF ne all] not_Infinity[OF all]
    by (auto simp: ds n)
  have last: "\<not> is_ws (last ds)"
    using ne all by (metis decimal_digit_plain(1) last_in_set list_all_iff)
  have "dropWhile is_ws (rev ds @ ''-'') = rev ds @ ''-''"
    using ne last by (cases "rev ds") (auto simp: hd_rev)
  then have tr: "trim (CHR ''-'' # ds) = CHR ''-'' # ds"
    by (simp add: trim_def is_ws_def)
  have nd: "nondecimal (CHR ''-'' # ds) = None"
    by (simp add: nondecimal_def split: list.splits)
  show "ToNumber (CHR ''-'' # ds) = round_double (- of_int n)"
    unfolding ToNumber_def tr
    using nd unsigned_decimal_digits[OF ne all] not_Infinity[OF all]
    by (simp add: n)
qed

lemma ToNumber_dyadic: "ToNumber s = Fin x \<Longrightarrow> dyadic x"
proof -
  assume a: "ToNumber s = Fin x"
  have z: "dyadic 0" using dyadic_int[of 0] by simp
  from a show ?thesis
    by (auto simp: ToNumber_def Let_def z round_double_dyadic
        split: list.splits option.splits if_splits)
qed

lemma page_number_dyadic: "page_number query = Fin x \<Longrightarrow> dyadic x"
  using dyadic_int[of 1] by (auto simp: page_number_def ToNumber_dyadic split: option.splits)

lemma skip_negative_iff:
  assumes "dyadic x"
  shows "js_negative (js_mul (js_sub (Fin x) (Fin 1)) (Fin 10)) = (x < 1)"
proof (cases "x < 1")
  case True
  with assms have "x - 1 \<le> - min_double" by (rule dyadic_below_one)
  then consider "round_double (x - 1) = NegInf"
    | m where "round_double (x - 1) = Fin m" "m \<le> - min_double"
    using round_double_negative by blast
  then show ?thesis
  proof cases
    case 1
    from 1 True show ?thesis by (simp add: js_scale_def)
  next
    case 2
    from 2(2) min_double_pos have "m * 10 \<le> - min_double" by linarith
    then consider "round_double (m * 10) = NegInf"
      | m' where "round_double (m * 10) = Fin m'" "m' \<le> - min_double"
      using round_double_negative by blast
    then show ?thesis
    proof cases
      case 1
      from 1 \<open>round_double (x - 1) = Fin m\<close> True show ?thesis by simp
    next
      case 2
      from 2(2) min_double_pos have "m' < 0" by linarith
      with \<open>round_double (x - 1) = Fin m\<close> 2(1) True show ?thesis by simp
    qed
  qed
next
  case False
  then have "0 \<le> x - 1" by simp
  then consider "round_double (x - 1) = PosInf"
    | m where "round_double (x - 1) = Fin m" "0 \<le> m"
    using round_double_nonneg by blast
  then show ?thesis
  proof cases
    case 1
    from 1 False show ?thesis by (simp add: js_scale_def)
  next
    case 2
    then have "0 \<le> m * 10" by simp
    then consider "round_double (m * 10) = PosInf"
      | m' where "round_double (m * 10) = Fin m'" "0 \<le> m'"
      using round_double_nonneg by blast
    then show ?thesis
    proof cases
      case 1
      from 1 \<open>round_double (x - 1) = Fin m\<close> False show ?thesis by simp
    next
      case 2
      from 2 \<open>round_double (x - 1) = Fin m\<close> False show ?thesis by simp
    qed
  qed
qed

lemma skip_nan_iff:
  "(js_mul (js_sub v (Fin 1)) (Fin 10) = NaN) = (v = NaN)"
proof (cases v)
  case (Fin x)
  then show ?thesis
    using round_double_cases[of "x - 1"]
    by (auto simp: js_scale_def)
qed (simp_all add: js_scale_def)

text \<open>
  Claim C3, as the code has it. For every dashboard request the number of skipped
  results is \<open>(page - 1) * 10\<close> in JavaScript arithmetic on the numeric value of the page
  parameter as submitted, 1 when the parameter is absent, with no minimum applied: the
  skip is NaN exactly when that value is NaN, and negative exactly when that value is
  below 1. When the value is an integer \<open>n\<close> of magnitude below \<open>2 ^ 49\<close>, as for a page
  written in decimal digits with or without a minus sign, the skip is exactly
  \<open>(n - 1) * 10\<close>.
\<close>

theorem skip_from_page:
  "(dashboard_skip query = NaN) = (page_number query = NaN) \<and>
   js_negative (dashboard_skip query) = js_below_one (page_number query) \<and>
   (page_number query = Fin (of_int n) \<and> \<bar>n\<bar> < 2 ^ 49 \<longrightarrow>
      dashboard_skip query = Fin (of_int ((n - 1) * 10))) \<and>
   (query ''page'' = None \<longrightarrow> page_number query = Fin 1) \<and>
   (query ''page'' = Some p \<and> digits_in 10 p = Some n \<and> \<bar>n\<bar> < 2 ^ 49 \<longrightarrow>
      page_number query = Fin (of_int n)) \<and>
   (query ''page'' = Some (CHR ''-'' # p) \<and> digits_in 10 p = Some n \<and> \<bar>n\<bar> < 2 ^ 49 \<longrightarrow>
      page_number query = Fin (of_int (- n)))"
proof -
  have skip: "dashboard_skip query = js_mul (js_sub (page_number query) (Fin 1)) (Fin 10)"
    by (simp add: dashboard_skip_def limit_def)
  have a: "(dashboard_skip query = NaN) = (page_number query = NaN)"
    unfolding skip by (rule skip_nan_iff)
  have b: "js_negative (dashboard_skip query) = js_below_one (page_number query)"
  proof (cases "page_number query")
    case (Fin x)
    then have "dyadic x" by (rule page_number_dyadic)
    then show ?thesis using skip_negative_iff[of x] unfolding skip Fin by simp
  qed (simp_all add: skip js_scale_def)
  have c: "dashboard_skip query = Fin (of_int ((n - 1) * 10))"
    if pn: "page_number query = Fin (of_int n)" and n: "\<bar>n\<bar> < 2 ^ 49"
  proof -
    from n have "\<bar>n - 1\<bar> < 2 ^ 53" by simp
    then have s1: "round_double (of_int (n - 1)) = Fin (of_int (n - 1))"
      by (rule round_double_int)
    from n have "\<bar>(n - 1) * 10\<bar> < 2 ^ 53" by simp
    then have s2: "round_double (of_int ((n - 1) * 10)) = Fin (of_int ((n - 1) * 10))"
      by (rule round_double_int)
    have "js_sub (Fin (of_int n)) (Fin 1) = Fin (of_int (n - 1))"
      using s1 by simp
    moreover have "js_mul (Fin (of_int (n - 1))) (Fin 10) = Fin (of_int ((n - 1) * 10))"
      using s2 by simp
    ultimately show ?thesis unfolding skip pn by simp
  qed
  have d: "page_number query = Fin 1" if "query ''page'' = None"
    using that by (simp add: page_number_def)
  have r: "round_double (of_int n) = Fin (of_int n)" "round_double (- of_int n) = Fin (of_int (- n))"
    if "\<bar>n\<bar> < 2 ^ 49"
    using that round_double_int[of n] round_double_int[of "- n"] by simp_all
  have e: "page_number query = Fin (of_int n)"
    if "query ''page'' = Some p" and "digits_in 10 p = Some n" and "\<bar>n\<bar> < 2 ^ 49"
    using that r by (simp add: page_number_def ToNumber_digits)
  have f: "page_number query = Fin (of_int (- n))"
    if "query ''page'' = Some (CHR ''-'' # p)" and "digits_in 10 p = Some n" and "\<bar>n\<bar> < 2 ^ 49"
    using that r by (simp add: page_number_def ToNumber_digits)
  show ?thesis using a b c d e f by blast
qed

text \<open>
  The theorem at pages written \<^verbatim>\<open>3\<close>, \<^verbatim>\<open>1e1\<close> and \<^verbatim>\<open> 2\<close> (skips 20, 90 and 10), at the page
  \<^verbatim>\<open>1.5\<close> (skip 5) and at a request without the parameter.
\<close>

theorem skip_from_page_witness:
  "page_number Map.empty = Fin 1 \<and> dashboard_skip Map.empty = Fin 0 \<and>
   digits_in 10 ''3'' = Some 3 \<and> dashboard_skip [''page'' \<mapsto> ''3''] = Fin 20 \<and>
   page_number [''page'' \<mapsto> ''1e1''] = Fin 10 \<and> dashboard_skip [''page'' \<mapsto> ''1e1''] = Fin 90 \<and>
   page_number [''page'' \<mapsto> '' 2''] = Fin 2 \<and> dashboard_skip [''page'' \<mapsto> '' 2''] = Fin 10 \<and>
   page_number [''page'' \<mapsto> ''1.5''] = Fin (3 / 2) \<and> dashboard_skip [''page'' \<mapsto> ''1.5''] = Fin 5 \<and>
   \<not> js_negative (dashboard_skip [''page'' \<mapsto> ''1.5''])"
proof -
  have d: "digits_in 10 ''3'' = Some 3"
    by (simp add: digits_in_def digits_val_def is_digit_in_def digit_of_def)
  have p: "page_number [''page'' \<mapsto> ''1e1''] = Fin 10" "page_number [''page'' \<mapsto> '' 2''] = Fin 2"
    "page_number [''page'' \<mapsto> ''1.5''] = Fin (3 / 2)"
    by (simp_all add: page_number_def ToNumber_examples)
  have h: "dashboard_skip [''page'' \<mapsto> ''1.5''] = Fin 5"
    by (simp add: dashboard_skip_def limit_def p round_double_halves round_double_numeral)
  show ?thesis
    using skip_from_page[of Map.empty 1 "''3''"] skip_from_page[of "[''page'' \<mapsto> ''3'']" 3 "''3''"]
      skip_from_page[of "[''page'' \<mapsto> ''1e1'']" 10 "''3''"]
      skip_from_page[of "[''page'' \<mapsto> '' 2'']" 2 "''3''"]
      skip_from_page[of "[''page'' \<mapsto> ''1.5'']" 1 "''3''"] d p h
    by simp
qed

text \<open>
  The claim as stated fails: the pages \<^verbatim>\<open>0\<close> and \<^verbatim>\<open>-5\<close> give a negative skip and the page
  \<^verbatim>\<open>abc\<close> gives NaN; none of the three is treated as page 1, whose skip is 0.
\<close>

theorem page_not_normalized_counterexample:
  "dashboard_skip [''page'' \<mapsto> ''0''] = Fin (- 10) \<and>
   dashboard_skip [''page'' \<mapsto> ''-5''] = Fin (- 60) \<and>
   dashboard_skip [''page'' \<mapsto> ''abc''] = NaN \<and>
   dashboard_skip [''page'' \<mapsto> ''1''] = Fin 0"
  by (simp add: dashboard_skip_def page_number_def limit_def ToNumber_examples round_double_numeral)

section \<open>Basic facts\<close>

lemmas example_defs = alice_def bob_def carol_def bug1_def bug2_def bug3_def store0_def
  alice_session_def carol_session_def anonymous_def high_open_crash_def
  id_alice_def id_bob_def id_carol_def id_bug1_def id_bug2_def id_bug3_def id_none_def

lemmas regex_defs = store_rx_def pcre_search_def atom_of_def quant_of_def regex_meta_def lower_def

lemma requireLogin_Inr: "requireLogin s = Inr u \<Longrightarrow> userId s = Some u \<and> u \<noteq> []"
  by (auto simp: requireLogin_def split: option.splits if_splits)

lemma requireLogin_examples:
  "requireLogin alice_session = Inr id_alice"
  "requireLogin carol_session = Inr id_carol"
  by (simp_all add: requireLogin_def example_defs)

lemma populate_Some: "populate us b = Some r \<Longrightarrow> user_id r = reporter b"
  by (auto simp: populate_def find_Some_iff)

subsection \<open>Sorting\<close>

lemma fval_less_irrefl: "\<not> fval_less x x"
  by (cases x) simp_all

lemma fval_less_total: "x \<noteq> y \<Longrightarrow> fval_less x y \<or> fval_less y x"
  by (cases x; cases y) auto

lemma fval_less_asym: "fval_less x y \<Longrightarrow> \<not> fval_less y x"
  by (cases x; cases y) auto

lemma fval_less_trans: "fval_less x y \<Longrightarrow> fval_less y z \<Longrightarrow> fval_less x z"
  by (cases x; cases y; cases z) auto

lemma sort_le_total: "sort_le spec a b \<or> sort_le spec b a"
proof (induction spec)
  case Nil
  show ?case by simp
next
  case (Cons kd spec)
  obtain k d where kd: "kd = (k, d)" by (cases kd)
  show ?case
    using Cons.IH fval_less_total[of "doc_value k a" "doc_value k b"]
    by (auto simp: kd)
qed

lemma sort_le_trans: "sort_le spec a b \<Longrightarrow> sort_le spec b c \<Longrightarrow> sort_le spec a c"
proof (induction spec)
  case Nil
  show ?case by simp
next
  case (Cons kd spec)
  obtain k d where kd: "kd = (k, d)" by (cases kd)
  let ?a = "doc_value k a" and ?b = "doc_value k b" and ?c = "doc_value k c"
  show ?case
  proof (cases "?a = ?b")
    case True
    with Cons show ?thesis by (auto simp: kd split: if_splits)
  next
    case ab: False
    show ?thesis
    proof (cases "?b = ?c")
      case True
      with Cons ab show ?thesis by (auto simp: kd split: if_splits)
    next
      case bc: False
      from Cons.prems ab bc have lt: "if d < 0 then fval_less ?c ?b \<and> fval_less ?b ?a
          else fval_less ?a ?b \<and> fval_less ?b ?c"
        by (auto simp: kd split: if_splits)
      then have "if d < 0 then fval_less ?c ?a else fval_less ?a ?c"
        by (auto intro: fval_less_trans split: if_splits)
      moreover from this have "?a \<noteq> ?c"
        by (auto simp: fval_less_irrefl split: if_splits)
      ultimately show ?thesis by (simp add: kd)
    qed
  qed
qed

lemma mset_insert_doc: "mset (insert_doc spec x ys) = add_mset x (mset ys)"
  by (induction ys) auto

lemma set_insert_doc: "set (insert_doc spec x ys) = insert x (set ys)"
  by (induction ys) auto

lemma sorted_insert_doc:
  "sorted_wrt (sort_le spec) ys \<Longrightarrow> sorted_wrt (sort_le spec) (insert_doc spec x ys)"
proof (induction ys)
  case Nil
  show ?case by simp
next
  case (Cons y ys)
  show ?case
  proof (cases "sort_le spec x y")
    case True
    then have "\<forall>z\<in>set ys. sort_le spec x z"
      using Cons.prems by (auto intro: sort_le_trans)
    with True Cons.prems show ?thesis by simp
  next
    case False
    then have "sort_le spec y x" using sort_le_total[of spec x y] by simp
    with False Cons show ?thesis by (auto simp: set_insert_doc)
  qed
qed

lemma sort_docs_sorted: "mset (sort_docs spec xs) = mset xs \<and> sorted_wrt (sort_le spec) (sort_docs spec xs)"
  by (induction xs) (auto simp: sort_docs_def mset_insert_doc sorted_insert_doc)

text \<open>Every query has a sorted result, so the handler always answers.\<close>

lemma find_sorted_exists:
  "find_sorted rx f spec docs (sort_docs spec (filter (doc_matches rx f) docs))"
  by (simp add: find_sorted_def sort_docs_sorted)

lemma get_dashboard_total: "\<exists>r. get_dashboard rx other st s query r"
proof (cases "requireLogin s")
  case (Inl r)
  then show ?thesis by (blast intro: get_dashboard.login)
next
  case (Inr u)
  show ?thesis
  proof (cases "store_skip other (dashboard_skip query)")
    case None
    with Inr show ?thesis by (blast intro: get_dashboard.failed)
  next
    case (Some k)
    from dashboard_bugs.page[OF Inr find_sorted_exists Some]
    show ?thesis by (blast intro: get_dashboard.rendered)
  qed
qed

text \<open>The handler's specification read as an order on bugs.\<close>

lemma sort_le_dashboard: "sort_le dashboard_sort a b = (createdAt b \<le> createdAt a)"
  by (auto simp: dashboard_sort_def doc_value_def)

lemma page_members:
  assumes "dashboard_bugs rx other st s query ys" and "b \<in> set ys"
  shows "b \<in> set (bugs st) \<and> doc_matches rx (dashboard_filter s query) b"
  using assms(1)
proof (cases rule: dashboard_bugs.cases)
  case (page u zs k)
  from assms(2) have "b \<in> set zs"
    unfolding page(1) by (auto dest: in_set_takeD in_set_dropD)
  then have "b \<in># mset zs" by simp
  then have "b \<in> set (filter (doc_matches rx (dashboard_filter s query)) (bugs st))"
    using page(3) by (metis find_sorted_def set_mset_mset)
  then show ?thesis by simp
qed

subsection \<open>The example store, queried\<close>

lemma alice_matches:
  "filter (doc_matches store_rx (dashboard_filter alice_session high_open_crash)) (bugs store0) = [bug1]"
  by (simp add: example_defs doc_matches_def dashboard_filter_def truthy_def regex_defs)

lemma carol_matches:
  "filter (doc_matches store_rx (dashboard_filter carol_session Map.empty)) (bugs store0) = [bug1, bug2, bug3]"
  by (simp add: example_defs doc_matches_def dashboard_filter_def truthy_def)

lemma skip_examples:
  "store_skip other (dashboard_skip high_open_crash) = Some 0"
  "store_skip other (dashboard_skip Map.empty) = Some 0"
  by (simp_all add: high_open_crash_def dashboard_skip_def page_number_def limit_def
      ToNumber_examples round_double_numeral store_skip_def)

lemma alice_page: "dashboard_bugs store_rx other store0 alice_session high_open_crash [bug1]"
proof -
  have "find_sorted store_rx (dashboard_filter alice_session high_open_crash) dashboard_sort
          (bugs store0) [bug1]"
    by (simp add: find_sorted_def alice_matches)
  from dashboard_bugs.page[OF requireLogin_examples(1) this skip_examples(1)]
  show ?thesis by (simp add: limit_def)
qed

lemma carol_page: "dashboard_bugs store_rx other store0 carol_session Map.empty [bug1, bug2, bug3]"
proof -
  have "find_sorted store_rx (dashboard_filter carol_session Map.empty) dashboard_sort
          (bugs store0) [bug1, bug2, bug3]"
    by (simp add: find_sorted_def carol_matches sort_le_dashboard) (simp add: example_defs)
  from dashboard_bugs.page[OF requireLogin_examples(2) this skip_examples(2)]
  show ?thesis by (simp add: limit_def)
qed

lemma carol_page_swapped: "dashboard_bugs store_rx other store0 carol_session Map.empty [bug2, bug1, bug3]"
proof -
  have "find_sorted store_rx (dashboard_filter carol_session Map.empty) dashboard_sort
          (bugs store0) [bug2, bug1, bug3]"
    by (simp add: find_sorted_def carol_matches sort_le_dashboard) (simp add: example_defs)
  from dashboard_bugs.page[OF requireLogin_examples(2) this skip_examples(2)]
  show ?thesis by (simp add: limit_def)
qed

lemma id_order: "\<not> sort_le [(''createdAt'', - 1), (''_id'', 1)] bug2 bug1"
  by (simp add: doc_value_def example_defs)

section \<open>Dashboard scoping\<close>

text \<open>
  Claim C1. For a logged-in session and any query parameters, the dashboard filter holds
  the condition \<open>reporter = userId\<close> exactly when the session's role is not admin; then
  every document the filter matches, and every bug on a returned page, has the session's
  user as reporter, whatever regular-expression search the store uses. For an admin the
  filter has no reporter condition.
\<close>

theorem dashboard_reporter_scope:
  assumes "requireLogin s = Inr u"
  shows "f_reporter (dashboard_filter s query) = (if userRole s = Some ''admin'' then None else Some u) \<and>
         (userRole s \<noteq> Some ''admin'' \<longrightarrow>
            (\<forall>b. doc_matches rx (dashboard_filter s query) b \<longrightarrow> reporter b = u) \<and>
            (\<forall>ys. dashboard_bugs rx other st s query ys \<longrightarrow> (\<forall>b\<in>set ys. reporter b = u)))"
proof -
  from assms have uid: "userId s = Some u" by (simp add: requireLogin_Inr)
  have rep: "f_reporter (dashboard_filter s query) = (if userRole s = Some ''admin'' then None else Some u)"
    by (simp add: dashboard_filter_def Let_def uid split: option.splits)
  have m: "reporter b = u"
    if "userRole s \<noteq> Some ''admin''" and "doc_matches rx (dashboard_filter s query) b" for b
    using that rep by (simp add: doc_matches_def)
  have d: "reporter b = u"
    if na: "userRole s \<noteq> Some ''admin''" and db: "dashboard_bugs rx other st s query ys"
      and b: "b \<in> set ys" for ys b
    using m[OF na] page_members[OF db b] by simp
  show ?thesis using rep m d by blast
qed

text \<open>
  The theorem at the reporter Alice asking for open, high-severity bugs that mention
  a crash: Bob's bug fits the three parameters and is not on her page.
\<close>

theorem dashboard_reporter_scope_witness:
  "requireLogin alice_session = Inr id_alice \<and>
   userRole alice_session \<noteq> Some ''admin'' \<and>
   f_reporter (dashboard_filter alice_session high_open_crash) = Some id_alice \<and>
   doc_matches store_rx (dashboard_filter alice_session high_open_crash) bug1 \<and>
   dashboard_bugs store_rx strict_skip store0 alice_session high_open_crash [bug1] \<and>
   reporter bug1 = id_alice \<and>
   f_reporter (dashboard_filter carol_session high_open_crash) = None"
proof -
  have na: "userRole alice_session \<noteq> Some ''admin''"
    by (simp add: alice_session_def)
  have m: "doc_matches store_rx (dashboard_filter alice_session high_open_crash) bug1"
    by (simp add: example_defs doc_matches_def dashboard_filter_def truthy_def regex_defs)
  show ?thesis
    using dashboard_reporter_scope[OF requireLogin_examples(1), of high_open_crash store_rx strict_skip store0]
      dashboard_reporter_scope[OF requireLogin_examples(2), of high_open_crash store_rx strict_skip store0]
      requireLogin_examples(1) na m alice_page[of strict_skip]
    by (simp add: carol_session_def bug1_def)
qed

section \<open>Ordering of the dashboard\<close>

text \<open>
  Claim C6, as the code has it. The handler sorts on the creation time alone, in
  descending order: every page the dashboard can return is in descending order of creation
  time, has at most ten bugs, and holds only stored bugs that match the filter. The sort
  specification names no second key, so it lets two bugs with equal creation times stand
  in either order, and which one the store delivers is not determined by the code.
\<close>

theorem dashboard_sorted_by_createdAt:
  assumes "dashboard_bugs rx other st s query ys"
  shows "sorted_wrt (\<lambda>a b. createdAt b \<le> createdAt a) ys \<and> length ys \<le> 10 \<and>
         (\<forall>b\<in>set ys. b \<in> set (bugs st) \<and> doc_matches rx (dashboard_filter s query) b) \<and>
         (\<forall>a b. createdAt a = createdAt b \<longrightarrow>
            sort_le dashboard_sort a b \<and> sort_le dashboard_sort b a)"
  using assms
proof (cases rule: dashboard_bugs.cases)
  case (page u zs k)
  from page(3) have "sorted_wrt (sort_le dashboard_sort) zs"
    by (simp add: find_sorted_def)
  then have "sorted_wrt (\<lambda>a b. createdAt b \<le> createdAt a) zs"
    by (simp add: sort_le_dashboard[abs_def])
  then have s: "sorted_wrt (\<lambda>a b. createdAt b \<le> createdAt a) ys"
    unfolding page(1) by (intro sorted_wrt_take sorted_wrt_drop)
  have l: "length ys \<le> 10"
    unfolding page(1) by (simp add: limit_def)
  have t: "sort_le dashboard_sort a b \<and> sort_le dashboard_sort b a"
    if "createdAt a = createdAt b" for a b
    using that by (simp add: sort_le_dashboard)
  show ?thesis using s l t page_members[OF assms] by blast
qed

text \<open>The theorem at the admin's dashboard over the example store.\<close>

theorem dashboard_sorted_by_createdAt_witness:
  "dashboard_bugs store_rx strict_skip store0 carol_session Map.empty [bug1, bug2, bug3] \<and>
   sorted_wrt (\<lambda>a b. createdAt b \<le> createdAt a) [bug1, bug2, bug3] \<and>
   map createdAt [bug1, bug2, bug3] = [100, 100, 50] \<and>
   doc_matches store_rx (dashboard_filter carol_session Map.empty) bug3 \<and>
   sort_le dashboard_sort bug1 bug2 \<and> sort_le dashboard_sort bug2 bug1"
proof -
  have t: "map createdAt [bug1, bug2, bug3] = [100, 100, 50]"
    by (simp add: bug1_def bug2_def bug3_def)
  show ?thesis
    using dashboard_sorted_by_createdAt[OF carol_page[of strict_skip]] carol_page[of strict_skip] t
    by simp
qed

text \<open>
  The claim as stated fails on the tie-break. The specification the handler passes is
  \<^verbatim>\<open>{ createdAt: -1 }\<close>, with no identifier in it; over the example store, whose first two
  bugs were created at the same instant, the admin's dashboard can come back with these two
  in either order. Had the identifier been a second key, the second order would not be a
  sorted result.
\<close>

theorem equal_timestamps_counterexample:
  "dashboard_sort = [(''createdAt'', - 1)] \<and>
   createdAt bug1 = createdAt bug2 \<and>
   bug_id bug1 \<noteq> bug_id bug2 \<and>
   dashboard_bugs store_rx strict_skip store0 carol_session Map.empty [bug1, bug2, bug3] \<and>
   dashboard_bugs store_rx strict_skip store0 carol_session Map.empty [bug2, bug1, bug3] \<and>
   [bug1, bug2, bug3] \<noteq> [bug2, bug1, bug3] \<and>
   \<not> sorted_wrt (sort_le [(''createdAt'', - 1), (''_id'', 1)]) [bug2, bug1, bug3]"
  using carol_page[of strict_skip] carol_page_swapped[of strict_skip] id_order
  by (simp add: dashboard_sort_def bug1_def bug2_def id_bug1_def id_bug2_def)

section \<open>Access policy\<close>

lemma findById_Some:
  "findById cast bs i = Inr (Some b) \<Longrightarrow> cast i = Some (bug_id b) \<and> b \<in> set bs"
  by (auto simp: findById_def find_Some_iff split: option.splits)

lemma findById_save_bug:
  assumes "findById cast bs i = Inr (Some b)" and "bug_id b' = bug_id b"
  shows "findById cast (save_bug b' bs) i = Inr (Some b')"
proof -
  from assms(1) obtain j where j: "cast i = Some j" and f: "find (\<lambda>x. bug_id x = j) bs = Some b"
    by (auto simp: findById_def split: option.splits)
  then have "bug_id b = j" by (auto simp: find_Some_iff)
  with f assms(2) have "find (\<lambda>x. bug_id x = j) (save_bug b' bs) = Some b'"
    by (induction bs) (auto split: if_splits)
  with j show ?thesis by (simp add: findById_def)
qed

lemma save_bug_frame:
  "find (\<lambda>x. bug_id x = bug_id b') bs = Some b \<Longrightarrow> reporter b' = reporter b \<Longrightarrow>
   createdAt b' = createdAt b \<Longrightarrow>
   map reporter (save_bug b' bs) = map reporter bs \<and>
   map bug_id (save_bug b' bs) = map bug_id bs \<and>
   map createdAt (save_bug b' bs) = map createdAt bs"
  by (induction bs) (auto split: if_splits)

lemma refs_ok_populate:
  "refs_ok st \<Longrightarrow> b \<in> set (bugs st) \<Longrightarrow> \<exists>r. populate (users st) b = Some r"
  by (auto simp: refs_ok_def list_all_iff)

lemma refs_ok_iff:
  "refs_ok st = (\<forall>r\<in>set (map reporter (bugs st)). \<exists>u\<in>set (users st). user_id u = r)"
  by (auto simp: refs_ok_def list_all_iff populate_def find_None_iff)

lemma put_bug_frame:
  "map reporter (bugs (fst (put_bug cast st s i body))) = map reporter (bugs st) \<and>
   map bug_id (bugs (fst (put_bug cast st s i body))) = map bug_id (bugs st) \<and>
   map createdAt (bugs (fst (put_bug cast st s i body))) = map createdAt (bugs st) \<and>
   users (fst (put_bug cast st s i body)) = users st"
proof (cases "requireLogin s")
  case (Inl r)
  then show ?thesis by (simp add: put_bug_def)
next
  case (Inr u)
  show ?thesis
  proof (cases "findById cast (bugs st) i")
    case (Inl e)
    with Inr show ?thesis by (simp add: put_bug_def)
  next
    case found: (Inr ob)
    show ?thesis
    proof (cases ob)
      case None
      with Inr found show ?thesis by (simp add: put_bug_def)
    next
      case (Some b)
      let ?b' = "b\<lparr>title := assign_if (body ''title'') (title b),
                   description := assign_if_opt (body ''description'') (description b),
                   severity := assign_if (body ''severity'') (severity b),
                   status := assign_if (body ''status'') (status b)\<rparr>"
      from found Some have "find (\<lambda>x. bug_id x = bug_id b) (bugs st) = Some b"
        by (auto simp: findById_def find_Some_iff split: option.splits)
      then have "find (\<lambda>x. bug_id x = bug_id ?b') (bugs st) = Some b" by simp
      then have fr: "map reporter (save_bug ?b' (bugs st)) = map reporter (bugs st) \<and>
        map bug_id (save_bug ?b' (bugs st)) = map bug_id (bugs st) \<and>
        map createdAt (save_bug ?b' (bugs st)) = map createdAt (bugs st)"
        by (rule save_bug_frame) simp_all
      show ?thesis using Inr found Some fr by (simp add: put_bug_def Let_def)
    qed
  qed
qed

text \<open>
  Referential integrity is an invariant of the handlers that write: registration, bug
  creation by a session of a stored user, and update keep it, and a login that changes the
  session makes it the session of a stored user.
\<close>

lemma refs_ok_post_register: "refs_ok st \<Longrightarrow> refs_ok (fst (post_register hash i st body))"
  by (auto simp: refs_ok_iff post_register_def Let_def split: option.splits)

lemma refs_ok_put_bug: "refs_ok st \<Longrightarrow> refs_ok (fst (put_bug cast st s i body))"
  by (simp add: refs_ok_iff put_bug_frame)

lemma refs_ok_post_bugs:
  "refs_ok st \<Longrightarrow> session_ok st s \<Longrightarrow> refs_ok (fst (post_bugs st s body i now))"
  by (auto simp: refs_ok_iff session_ok_def list_ex_iff post_bugs_def new_Bug_def Let_def
      requireLogin_def split: sum.splits option.splits if_splits)

lemma User_findOne_Some:
  "User_findOne us v = Some u \<Longrightarrow> u \<in> set us \<and> v = Some (email u)"
  by (auto simp: User_findOne_def find_Some_iff split: option.splits)

lemma session_ok_kept:
  "session_ok st s \<Longrightarrow> session_ok (fst (post_register hash i st body)) s"
  "session_ok st s \<Longrightarrow> session_ok (fst (put_bug cast st s' j body')) s"
  "session_ok st s \<Longrightarrow> session_ok (fst (post_bugs st s' body'' k now)) s"
proof -
  assume a: "session_ok st s"
  show "session_ok (fst (post_register hash i st body)) s"
    using a by (auto simp: session_ok_def list_ex_iff post_register_def Let_def split: option.splits)
  show "session_ok (fst (put_bug cast st s' j body')) s"
    using a by (simp add: session_ok_def put_bug_frame)
  show "session_ok (fst (post_bugs st s' body'' k now)) s"
    using a by (auto simp: session_ok_def post_bugs_def split: sum.splits option.splits)
qed

lemma session_ok_post_login:
  assumes "fst (post_login compare st s body) \<noteq> s"
  shows "session_ok st (fst (post_login compare st s body))"
proof (cases "User_findOne (users st) (body ''email'')")
  case None
  with assms show ?thesis by (simp add: post_login_def)
next
  case (Some u)
  then have mem: "u \<in> set (users st)" by (simp add: User_findOne_Some)
  from assms Some have "fst (post_login compare st s body) =
      s\<lparr>userId := Some (user_id u), userName := Some (name u), userRole := Some (role u)\<rparr>"
    by (auto simp: post_login_def split: option.splits if_splits)
  with mem show ?thesis by (auto simp: session_ok_def list_ex_iff)
qed

lemma hex24_examples:
  "hex24 id_bug1 = Some id_bug1"
  "hex24 id_bug3 = Some id_bug3"
  "hex24 id_none = Some id_none"
  "hex24 ''zz'' = None"
  by (simp_all add: hex24_def is_digit_in_def digit_of_def lower_def
      id_bug1_def id_bug3_def id_none_def)

lemma findById_examples:
  "findById hex24 (bugs store0) id_bug1 = Inr (Some bug1)"
  "findById hex24 (bugs store0) id_bug3 = Inr (Some bug3)"
  "findById hex24 (bugs store0) id_none = Inr None"
  "findById hex24 (bugs store0) ''zz'' = Inl CastError"
  by (simp_all add: findById_def hex24_examples) (simp_all add: example_defs)

text \<open>
  Claim C2. For a logged-in session and an existing bug of a store with referential
  integrity, the view, the edit form and the update decide by the same predicate, the one
  the specification calls \<open>canViewOrEdit\<close>: each of the three denies (with its own message,
  leaving the store as it was) exactly when the predicate is false, and the two read
  handlers render the bug exactly when it is true.
\<close>

theorem authorization_uniform:
  assumes "requireLogin s = Inr u" and "findById cast (bugs st) i = Inr (Some b)" and "refs_ok st"
  shows "get_bug cast st s i =
           (if canViewOrEdit s b then RenderShow b (populate (users st) b)
            else Redirect ''/dashboard'' ''error'' ''Not authorized to view this bug'') \<and>
         get_bug_edit cast st s i =
           (if canViewOrEdit s b then RenderEdit b (userRole s)
            else Redirect ''/dashboard'' ''error'' ''Not authorized to edit this bug'') \<and>
         (put_bug cast st s i body =
            (st, Redirect ''/dashboard'' ''error'' ''Not authorized to update this bug''))
           = (\<not> canViewOrEdit s b) \<and>
         canViewOrEdit s b = (userRole s = Some ''admin'' \<or> reporter b = u)"
proof -
  from assms(1) have uid: "userId s = Some u" by (simp add: requireLogin_Inr)
  from assms(2,3) obtain r where pr: "populate (users st) b = Some r"
    using refs_ok_populate findById_Some by blast
  then have r: "user_id r = reporter b" by (rule populate_Some)
  have can: "canViewOrEdit s b = (userRole s = Some ''admin'' \<or> reporter b = u)"
    by (simp add: canViewOrEdit_def uid)
  have v: "get_bug cast st s i =
           (if canViewOrEdit s b then RenderShow b (populate (users st) b)
            else Redirect ''/dashboard'' ''error'' ''Not authorized to view this bug'')"
    using assms(1,2) pr r by (simp add: get_bug_def can)
  have e: "get_bug_edit cast st s i =
           (if canViewOrEdit s b then RenderEdit b (userRole s)
            else Redirect ''/dashboard'' ''error'' ''Not authorized to edit this bug'')"
    using assms(1,2) by (simp add: get_bug_edit_def can)
  have p: "(put_bug cast st s i body =
              (st, Redirect ''/dashboard'' ''error'' ''Not authorized to update this bug''))
           = (\<not> canViewOrEdit s b)"
    using assms(1,2) by (simp add: put_bug_def can Let_def)
  show ?thesis using v e p can by blast
qed

text \<open>
  The theorem at Alice and Bob's bug (all three deny) and at Alice and her own bug (none
  of the three denies).
\<close>

theorem authorization_uniform_witness:
  "requireLogin alice_session = Inr id_alice \<and>
   findById hex24 (bugs store0) id_bug3 = Inr (Some bug3) \<and>
   findById hex24 (bugs store0) id_bug1 = Inr (Some bug1) \<and>
   refs_ok store0 \<and>
   \<not> canViewOrEdit alice_session bug3 \<and>
   get_bug hex24 store0 alice_session id_bug3 =
     Redirect ''/dashboard'' ''error'' ''Not authorized to view this bug'' \<and>
   get_bug_edit hex24 store0 alice_session id_bug3 =
     Redirect ''/dashboard'' ''error'' ''Not authorized to edit this bug'' \<and>
   put_bug hex24 store0 alice_session id_bug3 [''status'' \<mapsto> ''Closed''] =
     (store0, Redirect ''/dashboard'' ''error'' ''Not authorized to update this bug'') \<and>
   canViewOrEdit alice_session bug1 \<and>
   get_bug hex24 store0 alice_session id_bug1 = RenderShow bug1 (Some alice) \<and>
   get_bug_edit hex24 store0 alice_session id_bug1 = RenderEdit bug1 (Some ''reporter'') \<and>
   put_bug hex24 store0 alice_session id_bug1 [''status'' \<mapsto> ''Closed''] \<noteq>
     (store0, Redirect ''/dashboard'' ''error'' ''Not authorized to update this bug'')"
proof -
  have ri: "refs_ok store0"
    by (simp add: refs_ok_def populate_def example_defs)
  have c3: "\<not> canViewOrEdit alice_session bug3"
    by (simp add: canViewOrEdit_def example_defs)
  have c1: "canViewOrEdit alice_session bug1"
    by (simp add: canViewOrEdit_def example_defs)
  have p1: "populate (users store0) bug1 = Some alice"
    by (simp add: populate_def example_defs)
  have role: "userRole alice_session = Some ''reporter''"
    by (simp add: alice_session_def)
  show ?thesis
    using authorization_uniform[OF requireLogin_examples(1) findById_examples(2) ri,
        of "[''status'' \<mapsto> ''Closed'']"]
      authorization_uniform[OF requireLogin_examples(1) findById_examples(1) ri,
        of "[''status'' \<mapsto> ''Closed'']"]
      requireLogin_examples(1) findById_examples(1,2) ri c3 c1 p1 role
    by simp
qed

text \<open>
  Claim C5, as the code has it. For a logged-in session of any role, when the requested
  id is well-formed and no bug has it, the view, the edit form and the update answer
  \<^verbatim>\<open>Bug not found\<close>; when the requested id is malformed, the lookup throws and they answer
  \<^verbatim>\<open>Error loading bug\<close>, \<^verbatim>\<open>Error loading edit form\<close> and \<^verbatim>\<open>Update failed\<close>. Neither answer
  depends on the role or the user id, the update leaves the store as it was, and a denial
  of access is answered only when the lookup has found a bug.
\<close>

theorem not_found_before_authorization:
  assumes "requireLogin s = Inr u"
  shows "(findById cast (bugs st) i = Inr None \<longrightarrow>
            get_bug cast st s i = Redirect ''/dashboard'' ''error'' ''Bug not found'' \<and>
            get_bug_edit cast st s i = Redirect ''/dashboard'' ''error'' ''Bug not found'' \<and>
            put_bug cast st s i body = (st, Redirect ''/dashboard'' ''error'' ''Bug not found'')) \<and>
         (cast i = None \<longrightarrow>
            get_bug cast st s i = Redirect ''/dashboard'' ''error'' ''Error loading bug'' \<and>
            get_bug_edit cast st s i = Redirect ''/dashboard'' ''error'' ''Error loading edit form'' \<and>
            put_bug cast st s i body = (st, Redirect ''/dashboard'' ''error'' ''Update failed'')) \<and>
         (get_bug cast st s i = Redirect ''/dashboard'' ''error'' ''Not authorized to view this bug'' \<or>
          get_bug_edit cast st s i = Redirect ''/dashboard'' ''error'' ''Not authorized to edit this bug'' \<or>
          snd (put_bug cast st s i body) =
            Redirect ''/dashboard'' ''error'' ''Not authorized to update this bug'' \<longrightarrow>
            (\<exists>b. findById cast (bugs st) i = Inr (Some b)))"
proof -
  have a: "get_bug cast st s i = Redirect ''/dashboard'' ''error'' ''Bug not found'' \<and>
      get_bug_edit cast st s i = Redirect ''/dashboard'' ''error'' ''Bug not found'' \<and>
      put_bug cast st s i body = (st, Redirect ''/dashboard'' ''error'' ''Bug not found'')"
    if "findById cast (bugs st) i = Inr None"
    using assms that by (simp add: get_bug_def get_bug_edit_def put_bug_def)
  have b: "get_bug cast st s i = Redirect ''/dashboard'' ''error'' ''Error loading bug'' \<and>
      get_bug_edit cast st s i = Redirect ''/dashboard'' ''error'' ''Error loading edit form'' \<and>
      put_bug cast st s i body = (st, Redirect ''/dashboard'' ''error'' ''Update failed'')"
    if "cast i = None"
    using assms that by (simp add: get_bug_def get_bug_edit_def put_bug_def findById_def)
  have c: "\<exists>b. findById cast (bugs st) i = Inr (Some b)"
    if "get_bug cast st s i = Redirect ''/dashboard'' ''error'' ''Not authorized to view this bug'' \<or>
        get_bug_edit cast st s i = Redirect ''/dashboard'' ''error'' ''Not authorized to edit this bug'' \<or>
        snd (put_bug cast st s i body) =
          Redirect ''/dashboard'' ''error'' ''Not authorized to update this bug''"
    using assms that
    by (auto simp: get_bug_def get_bug_edit_def put_bug_def Let_def
        split: sum.splits option.splits if_splits)
  show ?thesis using a b c by blast
qed

text \<open>
  The theorem at a well-formed id that no bug of the example store has, for the reporter
  and for the admin, and at a malformed id.
\<close>

theorem not_found_before_authorization_witness:
  "requireLogin alice_session = Inr id_alice \<and>
   findById hex24 (bugs store0) id_none = Inr None \<and>
   get_bug hex24 store0 alice_session id_none = Redirect ''/dashboard'' ''error'' ''Bug not found'' \<and>
   get_bug_edit hex24 store0 alice_session id_none =
     Redirect ''/dashboard'' ''error'' ''Bug not found'' \<and>
   put_bug hex24 store0 alice_session id_none [''title'' \<mapsto> ''x''] =
     (store0, Redirect ''/dashboard'' ''error'' ''Bug not found'') \<and>
   get_bug hex24 store0 carol_session id_none = Redirect ''/dashboard'' ''error'' ''Bug not found'' \<and>
   hex24 ''zz'' = None \<and>
   get_bug_edit hex24 store0 carol_session ''zz'' =
     Redirect ''/dashboard'' ''error'' ''Error loading edit form''"
  using not_found_before_authorization[OF requireLogin_examples(1), of hex24 store0 id_none
        "[''title'' \<mapsto> ''x'']"]
    not_found_before_authorization[OF requireLogin_examples(2), of hex24 store0 id_none
        "[''title'' \<mapsto> ''x'']"]
    not_found_before_authorization[OF requireLogin_examples(2), of hex24 store0 "''zz''"
        "[''title'' \<mapsto> ''x'']"]
    requireLogin_examples(1) findById_examples(3) hex24_examples(4)
  by simp

text \<open>
  The claim as stated fails on a malformed id: no bug of the example store has the id
  \<^verbatim>\<open>zz\<close>, and the view and the update answer with the catch's message, not with
  \<^verbatim>\<open>Bug not found\<close>.
\<close>

theorem malformed_id_counterexample:
  "list_all (\<lambda>b. bug_id b \<noteq> ''zz'') (bugs store0) \<and>
   get_bug hex24 store0 alice_session ''zz'' =
     Redirect ''/dashboard'' ''error'' ''Error loading bug'' \<and>
   get_bug hex24 store0 alice_session ''zz'' \<noteq>
     Redirect ''/dashboard'' ''error'' ''Bug not found'' \<and>
   put_bug hex24 store0 alice_session ''zz'' [''title'' \<mapsto> ''x''] =
     (store0, Redirect ''/dashboard'' ''error'' ''Update failed'')"
  by (simp add: get_bug_def put_bug_def requireLogin_examples findById_examples)
     (simp add: example_defs)

section \<open>Frame of creation and update\<close>

text \<open>
  Claim C7. A bug that \<^verbatim>\<open>POST /bugs\<close> stores is appended with the session's user id as its
  reporter, whatever the body holds (a body field named reporter is never read), and a
  request that does not answer \<^verbatim>\<open>Bug reported\<close> stores nothing. \<^verbatim>\<open>PUT /bugs/:id\<close> leaves the
  reporter, the id and the creation time of every stored bug as they were; registration
  does not touch the bugs.
\<close>

theorem reporter_fixed_at_creation:
  "(snd (post_bugs st s body i now) = Redirect ''/dashboard'' ''success'' ''Bug reported'' \<longrightarrow>
      (\<exists>b. bugs (fst (post_bugs st s body i now)) = bugs st @ [b] \<and>
           Some (reporter b) = userId s)) \<and>
   (snd (post_bugs st s body i now) \<noteq> Redirect ''/dashboard'' ''success'' ''Bug reported'' \<longrightarrow>
      bugs (fst (post_bugs st s body i now)) = bugs st) \<and>
   map reporter (bugs (fst (put_bug cast st s' j body'))) = map reporter (bugs st) \<and>
   map bug_id (bugs (fst (put_bug cast st s' j body'))) = map bug_id (bugs st) \<and>
   map createdAt (bugs (fst (put_bug cast st s' j body'))) = map createdAt (bugs st) \<and>
   bugs (fst (post_register hash k st body'')) = bugs st"
proof -
  have c: "(snd (post_bugs st s body i now) = Redirect ''/dashboard'' ''success'' ''Bug reported'' \<longrightarrow>
      (\<exists>b. bugs (fst (post_bugs st s body i now)) = bugs st @ [b] \<and>
           Some (reporter b) = userId s)) \<and>
   (snd (post_bugs st s body i now) \<noteq> Redirect ''/dashboard'' ''success'' ''Bug reported'' \<longrightarrow>
      bugs (fst (post_bugs st s body i now)) = bugs st)"
    by (auto simp: post_bugs_def new_Bug_def Let_def requireLogin_def
        split: sum.splits option.splits if_splits)
  have r: "bugs (fst (post_register hash k st body'')) = bugs st"
    by (auto simp: post_register_def Let_def split: option.splits)
  show ?thesis using c r put_bug_frame[of cast st s' j body'] by blast
qed

text \<open>
  The theorem at Alice filing a bug with a body that names Bob as reporter, and at the
  admin Carol updating Bob's bug with such a body.
\<close>

theorem reporter_fixed_at_creation_witness:
  "post_bugs store0 alice_session [''title'' \<mapsto> ''New bug'', ''reporter'' \<mapsto> id_bob] ''64b2000000000000000000d4'' 200 =
     (store0\<lparr>bugs := bugs store0 @
        [\<lparr>bug_id = ''64b2000000000000000000d4'', title = ''New bug'', description = None,
          severity = ''Low'', status = ''Open'', reporter = id_alice, createdAt = 200\<rparr>]\<rparr>,
      Redirect ''/dashboard'' ''success'' ''Bug reported'') \<and>
   userId alice_session = Some id_alice \<and>
   snd (post_bugs store0 anonymous [''title'' \<mapsto> ''New bug''] ''64b2000000000000000000d4'' 200) \<noteq>
     Redirect ''/dashboard'' ''success'' ''Bug reported'' \<and>
   bugs (fst (post_bugs store0 anonymous [''title'' \<mapsto> ''New bug''] ''64b2000000000000000000d4'' 200)) =
     bugs store0 \<and>
   map reporter (bugs (fst (put_bug hex24 store0 carol_session id_bug3
      [''status'' \<mapsto> ''Closed'', ''reporter'' \<mapsto> id_alice]))) = [id_alice, id_alice, id_bob] \<and>
   map status (bugs (fst (put_bug hex24 store0 carol_session id_bug3
      [''status'' \<mapsto> ''Closed'', ''reporter'' \<mapsto> id_alice]))) = [''Open'', ''Open'', ''Closed'']"
proof -
  have a: "post_bugs store0 alice_session [''title'' \<mapsto> ''New bug'', ''reporter'' \<mapsto> id_bob] ''64b2000000000000000000d4'' 200 =
     (store0\<lparr>bugs := bugs store0 @
        [\<lparr>bug_id = ''64b2000000000000000000d4'', title = ''New bug'', description = None,
          severity = ''Low'', status = ''Open'', reporter = id_alice, createdAt = 200\<rparr>]\<rparr>,
      Redirect ''/dashboard'' ''success'' ''Bug reported'')"
    by (simp add: post_bugs_def new_Bug_def bug_valid_def requireLogin_examples)
  have n: "post_bugs store0 anonymous [''title'' \<mapsto> ''New bug''] ''64b2000000000000000000d4'' 200 =
     (store0, Redirect ''/login'' ''error'' ''You must be logged in'')"
    by (simp add: post_bugs_def requireLogin_def anonymous_def)
  have u: "userId alice_session = Some id_alice"
    by (simp add: alice_session_def)
  have p: "put_bug hex24 store0 carol_session id_bug3 [''status'' \<mapsto> ''Closed'', ''reporter'' \<mapsto> id_alice] =
     (store0\<lparr>bugs := [bug1, bug2, bug3\<lparr>status := ''Closed''\<rparr>]\<rparr>,
      Redirect (''/bugs/'' @ id_bug3) ''success'' ''Bug updated'')"
    by (simp add: put_bug_def requireLogin_examples findById_examples assign_if_def
        assign_if_opt_def Let_def)
       (simp add: bug_valid_def example_defs)
  have m: "map status [bug1, bug2, bug3\<lparr>status := ''Closed''\<rparr>] = [''Open'', ''Open'', ''Closed'']"
    "map reporter (bugs store0) = [id_alice, id_alice, id_bob]"
    by (simp_all add: store0_def bug1_def bug2_def bug3_def)
  show ?thesis
    using reporter_fixed_at_creation[of store0 alice_session
        "[''title'' \<mapsto> ''New bug'', ''reporter'' \<mapsto> id_bob]" "''64b2000000000000000000d4''" 200
        hex24 carol_session id_bug3
        "[''status'' \<mapsto> ''Closed'', ''reporter'' \<mapsto> id_alice]" toy_hash "''64a1000000000000000000e4''" Map.empty]
      reporter_fixed_at_creation[of store0 anonymous
        "[''title'' \<mapsto> ''New bug'']" "''64b2000000000000000000d4''" 200
        hex24 carol_session id_bug3
        "[''status'' \<mapsto> ''Closed'', ''reporter'' \<mapsto> id_alice]" toy_hash "''64a1000000000000000000e4''" Map.empty]
      a n u p m
    by simp
qed

text \<open>
  Claim C10. For an update that passes the access check, the stored bug afterwards keeps
  its previous value in each of title, description, severity and status whose submitted
  value is absent or the empty string; a description that was a non-empty string is a
  non-empty string afterwards.
\<close>

theorem update_keeps_blank_fields:
  assumes "requireLogin s = Inr u" and "findById cast (bugs st) i = Inr (Some b)"
    and "userRole s = Some ''admin'' \<or> reporter b = u"
  shows "\<exists>b'. findById cast (bugs (fst (put_bug cast st s i body))) i = Inr (Some b') \<and>
           (\<not> truthy (body ''title'') \<longrightarrow> title b' = title b) \<and>
           (\<not> truthy (body ''description'') \<longrightarrow> description b' = description b) \<and>
           (\<not> truthy (body ''severity'') \<longrightarrow> severity b' = severity b) \<and>
           (\<not> truthy (body ''status'') \<longrightarrow> status b' = status b) \<and>
           (truthy (description b) \<longrightarrow> truthy (description b'))"
proof -
  let ?b' = "b\<lparr>title := assign_if (body ''title'') (title b),
               description := assign_if_opt (body ''description'') (description b),
               severity := assign_if (body ''severity'') (severity b),
               status := assign_if (body ''status'') (status b)\<rparr>"
  have id: "bug_id ?b' = bug_id b" by simp
  have fields: "(\<not> truthy (body ''title'') \<longrightarrow> title ?b' = title b) \<and>
           (\<not> truthy (body ''description'') \<longrightarrow> description ?b' = description b) \<and>
           (\<not> truthy (body ''severity'') \<longrightarrow> severity ?b' = severity b) \<and>
           (\<not> truthy (body ''status'') \<longrightarrow> status ?b' = status b) \<and>
           (truthy (description b) \<longrightarrow> truthy (description ?b'))"
    by (auto simp: truthy_def assign_if_def assign_if_opt_def split: option.splits)
  show ?thesis
  proof (cases "bug_valid ?b'")
    case True
    then have "fst (put_bug cast st s i body) = st\<lparr>bugs := save_bug ?b' (bugs st)\<rparr>"
      using assms by (auto simp: put_bug_def Let_def)
    then have "findById cast (bugs (fst (put_bug cast st s i body))) i = Inr (Some ?b')"
      using findById_save_bug[OF assms(2) id] by simp
    with fields show ?thesis by blast
  next
    case False
    then have "fst (put_bug cast st s i body) = st"
      using assms by (auto simp: put_bug_def Let_def)
    then have "findById cast (bugs (fst (put_bug cast st s i body))) i = Inr (Some b)"
      using assms(2) by simp
    then show ?thesis by blast
  qed
qed

text \<open>
  The theorem at Alice updating her bug with a new status, an empty description and no
  title: the description and the title stay.
\<close>

theorem update_keeps_blank_fields_witness:
  "requireLogin alice_session = Inr id_alice \<and>
   findById hex24 (bugs store0) id_bug1 = Inr (Some bug1) \<and>
   reporter bug1 = id_alice \<and>
   \<not> truthy ([''status'' \<mapsto> ''Closed'', ''description'' \<mapsto> ''''] ''description'') \<and>
   \<not> truthy ([''status'' \<mapsto> ''Closed'', ''description'' \<mapsto> ''''] ''title'') \<and>
   findById hex24 (bugs (fst (put_bug hex24 store0 alice_session id_bug1
      [''status'' \<mapsto> ''Closed'', ''description'' \<mapsto> '''']))) id_bug1 =
     Inr (Some (bug1\<lparr>status := ''Closed''\<rparr>)) \<and>
   description (bug1\<lparr>status := ''Closed''\<rparr>) = Some ''It crashes'' \<and>
   title (bug1\<lparr>status := ''Closed''\<rparr>) = ''Crash on save''"
proof -
  have r: "reporter bug1 = id_alice" by (simp add: bug1_def)
  have p: "put_bug hex24 store0 alice_session id_bug1 [''status'' \<mapsto> ''Closed'', ''description'' \<mapsto> ''''] =
     (store0\<lparr>bugs := [bug1\<lparr>status := ''Closed''\<rparr>, bug2, bug3]\<rparr>,
      Redirect (''/bugs/'' @ id_bug1) ''success'' ''Bug updated'')"
    by (simp add: put_bug_def requireLogin_examples findById_examples assign_if_def
        assign_if_opt_def Let_def)
       (simp add: bug_valid_def example_defs)
  have g: "findById hex24 [bug1\<lparr>status := ''Closed''\<rparr>, bug2, bug3] id_bug1 =
      Inr (Some (bug1\<lparr>status := ''Closed''\<rparr>))"
    by (simp add: findById_def hex24_examples) (simp add: bug1_def)
  have d: "description (bug1\<lparr>status := ''Closed''\<rparr>) = Some ''It crashes''"
    "title (bug1\<lparr>status := ''Closed''\<rparr>) = ''Crash on save''"
    by (simp_all add: bug1_def)
  show ?thesis
    using update_keeps_blank_fields[OF requireLogin_examples(1) findById_examples(1) disjI2[OF r],
        of "[''status'' \<mapsto> ''Closed'', ''description'' \<mapsto> '''']"]
      requireLogin_examples(1) findById_examples(1) r p g d
    by (simp add: truthy_def)
qed

section \<open>Registration and login\<close>

lemma User_findOne_None:
  "\<forall>u\<in>set us. email u \<noteq> e \<Longrightarrow> User_findOne us (Some e) = None"
  by (simp add: User_findOne_def find_None_iff)

text \<open>
  Claim C8. A login whose email no stored user has answers \<^verbatim>\<open>Please Register First!\<close> with
  a redirect to the registration page; a login that finds the user and whose password the
  hash comparison rejects answers \<^verbatim>\<open>Invalid credentials\<close>; in both the session is returned
  as it was. Every login that does not answer \<^verbatim>\<open>Logged in\<close> returns the session unchanged.
\<close>

theorem login_failure_keeps_session:
  "(body ''email'' = Some e \<and> (\<forall>u\<in>set (users st). email u \<noteq> e) \<longrightarrow>
      post_login compare st s body =
        (s, Redirect ''/register'' ''error'' ''Please Register First!'')) \<and>
   (User_findOne (users st) (body ''email'') = Some u \<and> body ''password'' = Some p \<and>
      \<not> compare p (passwordHash u) \<longrightarrow>
      post_login compare st s body = (s, Redirect ''/login'' ''error'' ''Invalid credentials'')) \<and>
   (snd (post_login compare st s body) \<noteq> Redirect ''/dashboard'' ''success'' ''Logged in'' \<longrightarrow>
      fst (post_login compare st s body) = s)"
proof -
  have a: "post_login compare st s body =
      (s, Redirect ''/register'' ''error'' ''Please Register First!'')"
    if "body ''email'' = Some e" and "\<forall>u\<in>set (users st). email u \<noteq> e"
    using that by (simp add: post_login_def User_findOne_None)
  have b: "post_login compare st s body = (s, Redirect ''/login'' ''error'' ''Invalid credentials'')"
    if "User_findOne (users st) (body ''email'') = Some u" and "body ''password'' = Some p"
      and "\<not> compare p (passwordHash u)"
    using that by (simp add: post_login_def)
  have c: "fst (post_login compare st s body) = s"
    if "snd (post_login compare st s body) \<noteq> Redirect ''/dashboard'' ''success'' ''Logged in''"
    using that by (auto simp: post_login_def split: option.splits if_splits)
  show ?thesis using a b c by blast
qed

text \<open>
  The theorem at an unknown email and at Alice's email with a wrong password, both from
  an anonymous session; with the right password the session becomes Alice's.
\<close>

theorem login_failure_keeps_session_witness:
  "post_login toy_compare store0 anonymous
      [''email'' \<mapsto> ''nobody@example.com'', ''password'' \<mapsto> ''secret''] =
     (anonymous, Redirect ''/register'' ''error'' ''Please Register First!'') \<and>
   User_findOne (users store0) (Some ''alice@example.com'') = Some alice \<and>
   \<not> toy_compare ''guess'' (passwordHash alice) \<and>
   post_login toy_compare store0 anonymous
      [''email'' \<mapsto> ''alice@example.com'', ''password'' \<mapsto> ''guess''] =
     (anonymous, Redirect ''/login'' ''error'' ''Invalid credentials'') \<and>
   post_login toy_compare store0 anonymous
      [''email'' \<mapsto> ''alice@example.com'', ''password'' \<mapsto> ''secret''] =
     (alice_session, Redirect ''/dashboard'' ''success'' ''Logged in'')"
proof -
  have no: "\<forall>u\<in>set (users store0). email u \<noteq> ''nobody@example.com''"
    by (simp add: example_defs)
  have fa: "User_findOne (users store0) (Some ''alice@example.com'') = Some alice"
    by (simp add: User_findOne_def example_defs)
  have wrong: "\<not> toy_compare ''guess'' (passwordHash alice)"
    by (simp add: toy_compare_def toy_hash_def alice_def)
  have ok: "post_login toy_compare store0 anonymous
      [''email'' \<mapsto> ''alice@example.com'', ''password'' \<mapsto> ''secret''] =
     (alice_session, Redirect ''/dashboard'' ''success'' ''Logged in'')"
    by (simp add: post_login_def fa toy_compare_def toy_hash_def alice_def anonymous_def
        alice_session_def)
  show ?thesis
    using login_failure_keeps_session[of
        "[''email'' \<mapsto> ''nobody@example.com'', ''password'' \<mapsto> ''secret'']"
        "''nobody@example.com''" store0 toy_compare anonymous alice "''secret''"]
      login_failure_keeps_session[of
        "[''email'' \<mapsto> ''alice@example.com'', ''password'' \<mapsto> ''guess'']"
        "''alice@example.com''" store0 toy_compare anonymous alice "''guess''"]
      no fa wrong ok
    by simp
qed

text \<open>
  Claim C9. A registration that stores a user appends one record whose role is
  \<^verbatim>\<open>admin\<close> when the submitted role is the string \<^verbatim>\<open>admin\<close> and \<^verbatim>\<open>reporter\<close> for every other
  value and for an absent field; a registration that does not answer
  \<^verbatim>\<open>Registered. Please login.\<close> stores nothing; and a registration with a name, an unused
  email and a password does store the user.
\<close>

theorem register_role_admin_or_reporter:
  "(snd (post_register hash i st body) = Redirect ''/login'' ''success'' ''Registered. Please login.'' \<longrightarrow>
      (\<exists>u. users (fst (post_register hash i st body)) = users st @ [u] \<and>
           role u = (if body ''role'' = Some ''admin'' then ''admin'' else ''reporter''))) \<and>
   (snd (post_register hash i st body) \<noteq> Redirect ''/login'' ''success'' ''Registered. Please login.'' \<longrightarrow>
      users (fst (post_register hash i st body)) = users st) \<and>
   (truthy (body ''name'') \<and> truthy (body ''email'') \<and> truthy (body ''password'') \<and>
    User_findOne (users st) (body ''email'') = None \<longrightarrow>
      snd (post_register hash i st body) = Redirect ''/login'' ''success'' ''Registered. Please login.'')"
  by (auto simp: post_register_def Let_def truthy_def split: option.splits if_splits)

text \<open>
  The theorem at three registrations: role \<^verbatim>\<open>admin\<close>, role \<^verbatim>\<open>Admin\<close>, and no role.
\<close>

theorem register_role_admin_or_reporter_witness:
  "map role (users (fst (post_register toy_hash ''64a1000000000000000000e4'' store0
      [''name'' \<mapsto> ''Dan'', ''email'' \<mapsto> ''dan@example.com'', ''password'' \<mapsto> ''pw'',
       ''role'' \<mapsto> ''admin'']))) = [''reporter'', ''reporter'', ''admin'', ''admin''] \<and>
   map role (users (fst (post_register toy_hash ''64a1000000000000000000e4'' store0
      [''name'' \<mapsto> ''Dan'', ''email'' \<mapsto> ''dan@example.com'', ''password'' \<mapsto> ''pw'',
       ''role'' \<mapsto> ''Admin'']))) = [''reporter'', ''reporter'', ''admin'', ''reporter''] \<and>
   map role (users (fst (post_register toy_hash ''64a1000000000000000000e4'' store0
      [''name'' \<mapsto> ''Dan'', ''email'' \<mapsto> ''dan@example.com'', ''password'' \<mapsto> ''pw'']))) =
     [''reporter'', ''reporter'', ''admin'', ''reporter''] \<and>
   snd (post_register toy_hash ''64a1000000000000000000e4'' store0
      [''name'' \<mapsto> ''Dan'', ''email'' \<mapsto> ''dan@example.com'', ''password'' \<mapsto> ''pw'',
       ''role'' \<mapsto> ''admin'']) = Redirect ''/login'' ''success'' ''Registered. Please login.''"
proof -
  have free: "User_findOne (users store0) (Some ''dan@example.com'') = None"
    by (simp add: User_findOne_def example_defs)
  have r0: "map role (users store0) = [''reporter'', ''reporter'', ''admin'']"
    by (simp add: example_defs)
  show ?thesis
    using register_role_admin_or_reporter[of toy_hash "''64a1000000000000000000e4''" store0
        "[''name'' \<mapsto> ''Dan'', ''email'' \<mapsto> ''dan@example.com'', ''password'' \<mapsto> ''pw'',
          ''role'' \<mapsto> ''admin'']"]
      register_role_admin_or_reporter[of toy_hash "''64a1000000000000000000e4''" store0
        "[''name'' \<mapsto> ''Dan'', ''email'' \<mapsto> ''dan@example.com'', ''password'' \<mapsto> ''pw'',
          ''role'' \<mapsto> ''Admin'']"]
      register_role_admin_or_reporter[of toy_hash "''64a1000000000000000000e4''" store0
        "[''name'' \<mapsto> ''Dan'', ''email'' \<mapsto> ''dan@example.com'', ''password'' \<mapsto> ''pw'']"]
      free r0
    by (auto simp: truthy_def)
qed


section \<open>Title search\<close>

lemma atom_of_plain: "c \<notin> regex_meta \<Longrightarrow> atom_of c = Some (Lit c) \<and> quant_of c = None"
  by (auto simp: atom_of_def quant_of_def regex_meta_def)

lemma parse_items_plain:
  "\<forall>c\<in>set q. c \<notin> regex_meta \<Longrightarrow> parse_items q = Some (map (\<lambda>c. (Lit c, One)) q)"
  by (induction q rule: parse_items.induct) (auto simp: atom_of_plain)

lemma match_here_literal:
  "match_here True (map (\<lambda>c. (Lit c, One)) q) t = prefix (map lower q) (map lower t)"
proof (induction q arbitrary: t)
  case Nil
  show ?case by simp
next
  case (Cons c q)
  show ?case by (cases t) (simp_all add: Cons.IH)
qed

lemma regex_search_literal:
  "regex_search True (map (\<lambda>c. (Lit c, One)) q) t = sublist (map lower q) (map lower t)"
proof (induction t)
  case Nil
  show ?case by (simp add: match_here_literal)
next
  case (Cons c t)
  show ?case using Cons.IH
    by (simp add: match_here_literal sublist_Cons_right del: match_here.simps)
qed

text \<open>
  Claim C4, as the code has it. For a non-empty \<open>q\<close> the filter's title condition is
  \<^verbatim>\<open>{ $regex: q, $options: 'i' }\<close>: \<open>q\<close> is the pattern of a case-insensitive
  regular-expression search, passed on as it came. When no character of \<open>q\<close> is a
  regular-expression metacharacter, the search succeeds exactly when \<open>q\<close> occurs in the
  title as a contiguous substring, letter case ignored.
\<close>

theorem title_search_is_regex:
  "(query ''q'' = Some q \<and> q \<noteq> [] \<longrightarrow> f_title (dashboard_filter s query) = Some (q, ''i'')) \<and>
   ((\<forall>c\<in>set q. c \<notin> regex_meta) \<longrightarrow>
      pcre_search q ''i'' t = Some (sublist (map lower q) (map lower t)))"
  by (auto simp: dashboard_filter_def Let_def pcre_search_def parse_items_plain regex_search_literal)

theorem title_search_is_regex_witness:
  "f_title (dashboard_filter alice_session [''q'' \<mapsto> ''CRASH'']) = Some (''CRASH'', ''i'') \<and>
   pcre_search ''CRASH'' ''i'' (title bug1) = Some True \<and>
   sublist (map lower ''CRASH'') (map lower (title bug1)) \<and>
   pcre_search ''CRASH'' ''i'' (title bug2) = Some False"
proof -
  have plain: "\<forall>c\<in>set ''CRASH''. c \<notin> regex_meta"
    by (simp add: regex_meta_def)
  have s1: "sublist (map lower ''CRASH'') (map lower (title bug1))"
    by (simp add: lower_def bug1_def sublist_Cons_right)
  have s2: "\<not> sublist (map lower ''CRASH'') (map lower (title bug2))"
    by (simp add: lower_def bug2_def sublist_Cons_right)
  show ?thesis
    using title_search_is_regex[of "[''q'' \<mapsto> ''CRASH'']" "''CRASH''" alice_session "title bug1"]
      title_search_is_regex[of "[''q'' \<mapsto> ''CRASH'']" "''CRASH''" alice_session "title bug2"]
      plain s1 s2
    by simp
qed

text \<open>
  The claim as stated fails on metacharacters. The query \<^verbatim>\<open>.*\<close> matches a bug whose title
  does not contain it, and the query \<^verbatim>\<open>a+b\<close> does not match the title \<^verbatim>\<open>a+b\<close>, which contains
  it.
\<close>

theorem title_search_literal_counterexample:
  "f_title (dashboard_filter carol_session [''q'' \<mapsto> ''.*'']) = Some (''.*'', ''i'') \<and>
   doc_matches store_rx (dashboard_filter carol_session [''q'' \<mapsto> ''.*'']) bug1 \<and>
   \<not> sublist (map lower ''.*'') (map lower (title bug1)) \<and>
   pcre_search ''a+b'' ''i'' ''a+b'' = Some False \<and>
   sublist (map lower ''a+b'') (map lower ''a+b'')"
  by (simp add: dashboard_filter_def doc_matches_def truthy_def regex_defs carol_session_def
      bug1_def sublist_Cons_right)

end
